theory Spec2Isabelle
  imports Main "HOL-Library.Word"
begin

section \<open>Periods (package periods)\<close>

text \<open>
  A Go \<^verbatim>\<open>time.Duration\<close> is a signed 64-bit count of nanoseconds; it is kept as a
  64-bit word and read with \<open>sint\<close>, comparisons are the signed ones.
\<close>

type_synonym duration = "64 word"

record Periods =
  Default :: duration
  Error :: duration

datatype cerror =
    ErrContextNil
  | ErrProduceNil
  | ErrDefaultNegative duration
  | ErrErrorNegative duration
  | ErrDefaultHardLessSoft duration duration
  | ErrErrorHardLessSoft duration duration

text \<open>\<^verbatim>\<open>Periods.Validate\<close>: \<open>None\<close> is the nil error.\<close>

definition Validate :: "Periods \<Rightarrow> cerror option" where
  "Validate pp =
     (if Default pp <s 0 then Some (ErrDefaultNegative (Default pp))
      else if Error pp <s 0 then Some (ErrErrorNegative (Error pp))
      else None)"

text \<open>\<^verbatim>\<open>Periods.Period\<close>: the argument is the cached error, \<open>None\<close> for nil.\<close>

definition Period :: "Periods \<Rightarrow> 'e option \<Rightarrow> duration" where
  "Period pp e = (if e \<noteq> None then Error pp else Default pp)"

definition New :: "duration \<Rightarrow> duration \<Rightarrow> Periods" where
  "New defaultPeriod errorPeriod = \<lparr>Default = defaultPeriod, Error = errorPeriod\<rparr>"


section \<open>The timestamped result\<close>

text \<open>
  A \<^verbatim>\<open>time.Time\<close> is an instant on the clock that \<^verbatim>\<open>time.Now\<close> reads, counted in
  nanoseconds from the zero instant of the \<^verbatim>\<open>time\<close> package; the three library
  operations the code uses are written out.
\<close>

type_synonym time = int

definition IsZero :: "time \<Rightarrow> bool" where
  "IsZero t = (t = 0)"

definition Add :: "time \<Rightarrow> duration \<Rightarrow> time" where
  "Add t d = t + sint d"

definition After :: "time \<Rightarrow> time \<Rightarrow> bool" where
  "After t u = (u < t)"

text \<open>
  \<^verbatim>\<open>interface{}\<close> and \<^verbatim>\<open>error\<close> values may be nil: \<open>'v option\<close> and \<open>'e option\<close>.
\<close>

record ('v, 'e) result =
  val :: "'v option"
  err :: "'e option"
  moment :: time

definition zero_result :: "('v, 'e) result" where
  "zero_result = \<lparr>val = None, err = None, moment = 0\<rparr>"

definition isValidAt :: "time \<Rightarrow> Periods \<Rightarrow> ('v, 'e) result \<Rightarrow> bool" where
  "isValidAt t periods r =
     (\<not> IsZero (moment r) \<and> After (Add (moment r) (Period periods (err r))) t)"

text \<open>
  \<^verbatim>\<open>result.produce\<close> with the pair returned by the production function and the
  clock reading taken afterwards.
\<close>

definition produce :: "'v option \<times> 'e option \<Rightarrow> time \<Rightarrow> ('v, 'e) result \<Rightarrow> ('v, 'e) result" where
  "produce out t r = r\<lparr>val := fst out, err := snd out, moment := t\<rparr>"

definition expand :: "('v, 'e) result \<Rightarrow> 'v option \<times> 'e option" where
  "expand r = (val r, err r)"

definition produceResult :: "'v option \<times> 'e option \<Rightarrow> time \<Rightarrow> ('v, 'e) result" where
  "produceResult out t = produce out t zero_result"

section \<open>Construction\<close>

datatype ctx = Background | WithCancel nat

record 'p onDemand =
  od_ctx :: ctx
  od_produce :: 'p
  od_periods :: Periods

record 'p softHard =
  sh_ctx :: ctx
  sh_produce :: 'p
  sh_soft :: Periods
  sh_hard :: Periods

text \<open>
  \<^verbatim>\<open>OnDemand\<close> and \<^verbatim>\<open>SoftHard\<close>: a nil context or producer is \<open>None\<close>; the result is
  \<open>Inl\<close> the error (and no instance) or \<open>Inr\<close> the instance. The cached result, the
  locks and the state word of a new instance are the initial values of the run-time
  state further down.
\<close>

definition OnDemand :: "ctx option \<Rightarrow> 'p option \<Rightarrow> Periods \<Rightarrow> cerror + 'p onDemand" where
  "OnDemand ctx pf pp =
     (case ctx of None \<Rightarrow> Inl ErrContextNil
      | Some c \<Rightarrow>
        (case pf of None \<Rightarrow> Inl ErrProduceNil
         | Some f \<Rightarrow>
           (case Validate pp of Some e \<Rightarrow> Inl e
            | None \<Rightarrow> Inr \<lparr>od_ctx = c, od_produce = f, od_periods = pp\<rparr>)))"

definition OnDemandNoCtx :: "'p option \<Rightarrow> Periods \<Rightarrow> cerror + 'p onDemand" where
  "OnDemandNoCtx pf pp = OnDemand (Some Background) pf pp"

definition SoftHard ::
  "ctx option \<Rightarrow> 'p option \<Rightarrow> Periods \<Rightarrow> Periods \<Rightarrow> cerror + 'p softHard" where
  "SoftHard ctx pf soft hard =
     (case ctx of None \<Rightarrow> Inl ErrContextNil
      | Some c \<Rightarrow>
        (case pf of None \<Rightarrow> Inl ErrProduceNil
         | Some f \<Rightarrow>
           (case Validate soft of Some e \<Rightarrow> Inl e
            | None \<Rightarrow>
              if Default hard <s Default soft
              then Inl (ErrDefaultHardLessSoft (Default hard) (Default soft))
              else if Error hard <s Error soft
              then Inl (ErrErrorHardLessSoft (Error hard) (Error soft))
              else Inr \<lparr>sh_ctx = c, sh_produce = f, sh_soft = soft, sh_hard = hard\<rparr>)))"

definition SoftHardNoCtx :: "'p option \<Rightarrow> Periods \<Rightarrow> Periods \<Rightarrow> cerror + 'p softHard" where
  "SoftHardNoCtx pf soft hard = SoftHard (Some Background) pf soft hard"

section \<open>Runs with several callers\<close>

text \<open>
  \<^verbatim>\<open>Get\<close> may be called from any number of goroutines. A run is a list of actions;
  threads are numbered. \<open>Call t\<close> starts a \<^verbatim>\<open>Get\<close> on thread \<open>t\<close>, \<open>Step t\<close> lets
  thread \<open>t\<close> execute its next access to shared memory (with the local computation
  that follows it), \<open>Return t v e\<close> lets the production function that \<open>t\<close> is
  running return the pair \<open>(v, e)\<close>, \<open>Go t g\<close> is the \<^verbatim>\<open>go\<close> statement of
  \<^verbatim>\<open>updateAsync\<close> executed by \<open>t\<close>, the new goroutine being \<open>g\<close>, and \<open>Tick d\<close> lets
  the clock advance by \<open>d\<close> nanoseconds.
\<close>

datatype ('v, 'e) action =
    Call nat
  | Step nat
  | Return nat "'v option" "'e option"
  | Go nat nat
  | Tick nat

section \<open>The on-demand strategy at run time\<close>

text \<open>
  Program points of \<^verbatim>\<open>onDemand.Get\<close>, named by the line of \<^verbatim>\<open>on_demand.go\<close> they
  stand before. \<open>O70\<close> and \<open>O80\<close> are the receiver copy of \<^verbatim>\<open>isValidNow\<close> within
  \<^verbatim>\<open>get\<close> (kept in \<open>otmp\<close>), \<open>O70n\<close> and \<open>O80n\<close> its \<^verbatim>\<open>time.Now\<close>; \<open>O74\<close>,
  \<open>O81\<close> and \<open>O85\<close> are the receiver copy of \<^verbatim>\<open>expand\<close>; \<open>O84\<close> to \<open>O84m\<close> are
  \<^verbatim>\<open>result.produce\<close>: the call, the running production function, the two
  assignments of the tuple assignment in their order, and the assignment of the
  moment; \<open>O81u\<close> and \<open>O85u\<close> are the deferred \<^verbatim>\<open>Unlock\<close>. \<open>O_Ret n\<close>: the call has
  returned from the \<^verbatim>\<open>return\<close> of line \<open>n\<close>.
\<close>

datatype od_pc =
    O_Free
  | O69 | O70 | O70n | O71 | O74
  | O77 | O80 | O80n | O81 | O81u
  | O84 | O84p | O84v | O84e | O84m | O85 | O85u
  | O_Ret nat

record ('v, 'e) od_local =
  opc :: od_pc
  otmp :: "('v, 'e) result"
  ovalid :: bool
  oout :: "'v option \<times> 'e option"
  oret :: "('v option \<times> 'e option) option"

text \<open>
  The shared memory of one instance: the result behind the pointer \<^verbatim>\<open>r.result\<close>, the
  \<^verbatim>\<open>sync.RWMutex\<close> (number of read locks held, write lock held), the clock, and the
  number of calls of the production function so far.
\<close>

record ('v, 'e) od_shared =
  oresult :: "('v, 'e) result"
  readers :: nat
  writer :: bool
  oclk :: time
  ocalls :: nat

record ('v, 'e) od_state =
  osh :: "('v, 'e) od_shared"
  oth :: "nat \<Rightarrow> ('v, 'e) od_local"

text \<open>
  One step of a thread. \<open>None\<close>: the thread cannot move (it waits for a lock or for
  the production function, or it runs no call). \<^verbatim>\<open>RLock\<close> waits while the write lock
  is held, \<^verbatim>\<open>Lock\<close> while any lock is held.
\<close>

fun od_at ::
  "od_pc \<Rightarrow> Periods \<Rightarrow> ('v, 'e) od_shared \<Rightarrow> ('v, 'e) od_local \<Rightarrow>
     (('v, 'e) od_shared \<times> ('v, 'e) od_local) option" where
  "od_at O69 pp sh l =
     (if writer sh then None else Some (sh\<lparr>readers := readers sh + 1\<rparr>, l\<lparr>opc := O70\<rparr>))"
| "od_at O70 pp sh l = Some (sh, l\<lparr>otmp := oresult sh, opc := O70n\<rparr>)"
| "od_at O70n pp sh l =
     Some (sh, l\<lparr>ovalid := isValidAt (oclk sh) pp (otmp l), opc := O71\<rparr>)"
| "od_at O71 pp sh l =
     (if readers sh = 0 then None
      else Some (sh\<lparr>readers := readers sh - 1\<rparr>,
                 l\<lparr>opc := (if ovalid l then O74 else O77)\<rparr>))"
| "od_at O74 pp sh l =
     Some (sh, l\<lparr>oret := Some (expand (oresult sh)), opc := O_Ret 74\<rparr>)"
| "od_at O77 pp sh l =
     (if writer sh \<or> readers sh \<noteq> 0 then None
      else Some (sh\<lparr>writer := True\<rparr>, l\<lparr>opc := O80\<rparr>))"
| "od_at O80 pp sh l = Some (sh, l\<lparr>otmp := oresult sh, opc := O80n\<rparr>)"
| "od_at O80n pp sh l =
     Some (sh, l\<lparr>ovalid := isValidAt (oclk sh) pp (otmp l),
                  opc := (if isValidAt (oclk sh) pp (otmp l) then O81 else O84)\<rparr>)"
| "od_at O81 pp sh l =
     Some (sh, l\<lparr>oret := Some (expand (oresult sh)), opc := O81u\<rparr>)"
| "od_at O81u pp sh l = Some (sh\<lparr>writer := False\<rparr>, l\<lparr>opc := O_Ret 81\<rparr>)"
| "od_at O84 pp sh l = Some (sh\<lparr>ocalls := ocalls sh + 1\<rparr>, l\<lparr>opc := O84p\<rparr>)"
| "od_at O84v pp sh l =
     Some (sh\<lparr>oresult := (oresult sh)\<lparr>val := fst (oout l)\<rparr>\<rparr>, l\<lparr>opc := O84e\<rparr>)"
| "od_at O84e pp sh l =
     Some (sh\<lparr>oresult := (oresult sh)\<lparr>err := snd (oout l)\<rparr>\<rparr>, l\<lparr>opc := O84m\<rparr>)"
| "od_at O84m pp sh l =
     Some (sh\<lparr>oresult := (oresult sh)\<lparr>moment := oclk sh\<rparr>\<rparr>, l\<lparr>opc := O85\<rparr>)"
| "od_at O85 pp sh l =
     Some (sh, l\<lparr>oret := Some (expand (oresult sh)), opc := O85u\<rparr>)"
| "od_at O85u pp sh l = Some (sh\<lparr>writer := False\<rparr>, l\<lparr>opc := O_Ret 85\<rparr>)"
| "od_at _ pp sh l = None"

definition od_local_step ::
  "Periods \<Rightarrow> ('v, 'e) od_shared \<Rightarrow> ('v, 'e) od_local \<Rightarrow>
     (('v, 'e) od_shared \<times> ('v, 'e) od_local) option" where
  "od_local_step pp sh l = od_at (opc l) pp sh l"

definition od_idle :: "od_pc \<Rightarrow> bool" where
  "od_idle p = (case p of O_Free \<Rightarrow> True | O_Ret n \<Rightarrow> True | _ \<Rightarrow> False)"

definition od_step ::
  "Periods \<Rightarrow> ('v, 'e) action \<Rightarrow> ('v, 'e) od_state \<Rightarrow> ('v, 'e) od_state option" where
  "od_step pp a s =
     (case a of
        Call t \<Rightarrow>
          if od_idle (opc (oth s t))
          then Some (s\<lparr>oth := (oth s)(t := (oth s t)\<lparr>opc := O69, oret := None\<rparr>)\<rparr>)
          else None
      | Step t \<Rightarrow>
          (case od_local_step pp (osh s) (oth s t) of
             None \<Rightarrow> None
           | Some (sh', l') \<Rightarrow> Some \<lparr>osh = sh', oth = (oth s)(t := l')\<rparr>)
      | Return t v e \<Rightarrow>
          if opc (oth s t) = O84p
          then Some (s\<lparr>oth := (oth s)(t := (oth s t)\<lparr>oout := (v, e), opc := O84v\<rparr>)\<rparr>)
          else None
      | Go t g \<Rightarrow> None
      | Tick d \<Rightarrow> Some (s\<lparr>osh := (osh s)\<lparr>oclk := oclk (osh s) + int d\<rparr>\<rparr>))"

fun od_exec ::
  "Periods \<Rightarrow> ('v, 'e) action list \<Rightarrow> ('v, 'e) od_state \<Rightarrow> ('v, 'e) od_state option" where
  "od_exec pp [] s = Some s"
| "od_exec pp (a # as) s =
     (case od_step pp a s of None \<Rightarrow> None | Some s' \<Rightarrow> od_exec pp as s')"

text \<open>
  The state of a new instance (\<^verbatim>\<open>result: &result{}\<close>, \<^verbatim>\<open>lock: &sync.RWMutex{}\<close>) when the
  clock shows \<open>t0\<close>; no thread runs a call.
\<close>

definition od_local0 :: "('v, 'e) od_local" where
  "od_local0 = \<lparr>opc = O_Free, otmp = zero_result, ovalid = False,
                oout = (None, None), oret = None\<rparr>"

definition od_init :: "time \<Rightarrow> ('v, 'e) od_state" where
  "od_init t0 =
     \<lparr>osh = \<lparr>oresult = zero_result, readers = 0, writer = False, oclk = t0, ocalls = 0\<rparr>,
      oth = (\<lambda>t. od_local0)\<rparr>"

text \<open>
  A production is in flight on a thread from the call of the production function
  until the last field of the result is written; the write lock is held at the
  program points of \<open>od_locked\<close>.
\<close>

definition od_producing :: "od_pc \<Rightarrow> bool" where
  "od_producing p = (p = O84p \<or> p = O84v \<or> p = O84e \<or> p = O84m)"

definition od_locked :: "od_pc \<Rightarrow> bool" where
  "od_locked p = (p = O80 \<or> p = O80n \<or> p = O81 \<or> p = O81u \<or> p = O84 \<or> p = O84p \<or>
                  p = O84v \<or> p = O84e \<or> p = O84m \<or> p = O85 \<or> p = O85u)"

definition od_excl :: "('v, 'e) od_state \<Rightarrow> bool" where
  "od_excl s =
     ((\<forall>t. od_locked (opc (oth s t)) \<longrightarrow> writer (osh s)) \<and>
      (\<forall>t u. od_locked (opc (oth s t)) \<longrightarrow> od_locked (opc (oth s u)) \<longrightarrow> t = u))"

section \<open>The soft-hard strategy at run time\<close>

text \<open>
  Program points of \<^verbatim>\<open>softHard.Get\<close> (\<open>L\<close>) and of the goroutine of
  \<^verbatim>\<open>updateAsync\<close> (\<open>G\<close>), named by the line they stand before; a step is one access
  to shared memory (the cell, the state word, the mutex, the condition, the clock, the
  production function) with the local computation that follows it.
  \<open>L128n\<close> is the \<^verbatim>\<open>time.Now\<close> of \<^verbatim>\<open>isValidNow\<close> in line 128;
  \<open>L134w\<close> is a thread blocked in \<^verbatim>\<open>Wait\<close>, \<open>L134r\<close> one that was woken and takes
  the mutex again; \<open>L153p\<close> and \<open>G90p\<close> are the running production function,
  \<open>L153n\<close> and \<open>G90n\<close> the \<^verbatim>\<open>time.Now\<close> of \<^verbatim>\<open>result.produce\<close>, \<open>G90s\<close> the
  \<^verbatim>\<open>Store\<close> of line 90; a suffix \<open>u\<close> marks a \<^verbatim>\<open>return\<close> whose deferred
  \<^verbatim>\<open>Unlock\<close> is pending. \<open>Ret n\<close>: the call has returned from the \<^verbatim>\<open>return\<close> of
  line \<open>n\<close>. \<open>Panic\<close>: the type assertion of line 110 failed.
\<close>

datatype sh_pc =
    Free
  | L101 | L102 | L109 | L110 | L111 | L114 | L115 | L117 | L121u
  | L125 | L128 | L128n | L129u
  | L132 | L133 | L134 | L134w | L134r
  | L138 | L139 | L142 | L143 | L144u | L148 | L149u
  | L153 | L153p | L153n | L154 | L156 | L157 | L159u
  | G90 | G90p | G90n | G90s | G92 | G95 | G96 | G97 | GDone
  | Ret nat
  | Panic

text \<open>
  The local variables of a call: \<open>res1\<close> and \<open>now1\<close> are \<^verbatim>\<open>res\<close> and \<^verbatim>\<open>now\<close> of lines
  101 to 123, \<open>res\<close> and \<open>now\<close> those of the later blocks (and \<^verbatim>\<open>r\<close> of
  \<^verbatim>\<open>produceResult\<close>), \<open>out\<close> the pair returned by the production function, \<open>ret\<close>
  the pair returned by \<^verbatim>\<open>Get\<close>. A type assertion that fails in line 101 leaves the
  zero value in \<open>res1\<close>. \<open>invoked\<close> records what the clock showed when \<^verbatim>\<open>Get\<close> was
  called; the code never reads it.
\<close>

record ('v, 'e) sh_local =
  pc :: sh_pc
  invoked :: time
  res1 :: "('v, 'e) result"
  now1 :: time
  res :: "('v, 'e) result"
  now :: time
  out :: "'v option \<times> 'e option"
  ret :: "('v option \<times> 'e option) option"

text \<open>
  The shared memory of one instance: the \<^verbatim>\<open>atomic.Value\<close> (\<open>None\<close> while nothing was
  stored), the state word, the mutex, the clock and the number of calls of the
  production function so far.
\<close>

record ('v, 'e) sh_shared =
  cell :: "('v, 'e) result option"
  flag :: "32 word"
  locked :: bool
  clk :: time
  calls :: nat

record ('v, 'e) sh_state =
  ssh :: "('v, 'e) sh_shared"
  sth :: "nat \<Rightarrow> ('v, 'e) sh_local"

text \<open>
  One step of a thread: the new shared memory, the new locals, and whether the step
  was a \<^verbatim>\<open>Broadcast\<close>. \<open>None\<close>: the thread cannot move (it waits for the mutex, for
  a broadcast or for the production function, its next statement is the \<^verbatim>\<open>go\<close>
  statement, or it runs nothing).
\<close>

fun sh_at ::
  "sh_pc \<Rightarrow> 'p softHard \<Rightarrow> ('v, 'e) sh_shared \<Rightarrow> ('v, 'e) sh_local \<Rightarrow>
     (('v, 'e) sh_shared \<times> ('v, 'e) sh_local \<times> bool) option" where
  "sh_at L101 r sh l =
     (case cell sh of
        None \<Rightarrow> Some (sh, l\<lparr>res1 := zero_result, pc := L125\<rparr>, False)
      | Some x \<Rightarrow> Some (sh, l\<lparr>res1 := x, pc := L102\<rparr>, False))"
| "sh_at L102 r sh l =
     (if isValidAt (clk sh) (sh_soft r) (res1 l)
      then Some (sh, l\<lparr>now1 := clk sh, ret := Some (expand (res1 l)), pc := Ret 105\<rparr>, False)
      else if isValidAt (clk sh) (sh_hard r) (res1 l)
      then Some (sh, l\<lparr>now1 := clk sh, pc := L109\<rparr>, False)
      else Some (sh, l\<lparr>now1 := clk sh, pc := L125\<rparr>, False))"
| "sh_at L109 r sh l =
     (if flag sh = 0 then Some (sh\<lparr>flag := 1\<rparr>, l\<lparr>pc := L110\<rparr>, False)
      else Some (sh, l\<lparr>ret := Some (expand (res1 l)), pc := Ret 121\<rparr>, False))"
| "sh_at L110 r sh l =
     (case cell sh of
        None \<Rightarrow> Some (sh, l\<lparr>pc := Panic\<rparr>, False)
      | Some x \<Rightarrow>
          Some (sh, l\<lparr>res1 := x,
                       pc := (if isValidAt (now1 l) (sh_soft r) x then L111 else L117)\<rparr>,
                False))"
| "sh_at L111 r sh l =
     (if locked sh then None else Some (sh\<lparr>locked := True\<rparr>, l\<lparr>pc := L114\<rparr>, False))"
| "sh_at L114 r sh l = Some (sh\<lparr>flag := 0\<rparr>, l\<lparr>pc := L115\<rparr>, False)"
| "sh_at L115 r sh l = Some (sh, l\<lparr>pc := L121u\<rparr>, True)"
| "sh_at L121u r sh l =
     Some (sh\<lparr>locked := False\<rparr>, l\<lparr>ret := Some (expand (res1 l)), pc := Ret 121\<rparr>, False)"
| "sh_at L125 r sh l =
     (if locked sh then None else Some (sh\<lparr>locked := True\<rparr>, l\<lparr>pc := L128\<rparr>, False))"
| "sh_at L128 r sh l =
     (case cell sh of
        None \<Rightarrow> Some (sh, l\<lparr>pc := L132\<rparr>, False)
      | Some x \<Rightarrow> Some (sh, l\<lparr>res := x, pc := L128n\<rparr>, False))"
| "sh_at L128n r sh l =
     Some (sh, l\<lparr>now := clk sh,
                  pc := (if isValidAt (clk sh) (sh_soft r) (res l) then L129u else L132)\<rparr>,
           False)"
| "sh_at L129u r sh l =
     Some (sh\<lparr>locked := False\<rparr>, l\<lparr>ret := Some (expand (res l)), pc := Ret 129\<rparr>, False)"
| "sh_at L132 r sh l =
     (if flag sh = 0 then Some (sh\<lparr>flag := 1\<rparr>, l\<lparr>pc := L138\<rparr>, False)
      else Some (sh, l\<lparr>pc := L133\<rparr>, False))"
| "sh_at L133 r sh l = Some (sh, l\<lparr>pc := (if 0 < flag sh then L134 else L132)\<rparr>, False)"
| "sh_at L134 r sh l = Some (sh\<lparr>locked := False\<rparr>, l\<lparr>pc := L134w\<rparr>, False)"
| "sh_at L134r r sh l =
     (if locked sh then None else Some (sh\<lparr>locked := True\<rparr>, l\<lparr>pc := L133\<rparr>, False))"
| "sh_at L138 r sh l =
     (case cell sh of
        None \<Rightarrow> Some (sh, l\<lparr>pc := L153\<rparr>, False)
      | Some x \<Rightarrow> Some (sh, l\<lparr>res := x, pc := L139\<rparr>, False))"
| "sh_at L139 r sh l =
     Some (sh, l\<lparr>now := clk sh,
                  pc := (if isValidAt (clk sh) (sh_soft r) (res l) then L142
                         else if isValidAt (clk sh) (sh_hard r) (res l) then L148
                         else L153)\<rparr>,
           False)"
| "sh_at L142 r sh l = Some (sh\<lparr>flag := 0\<rparr>, l\<lparr>pc := L143\<rparr>, False)"
| "sh_at L143 r sh l = Some (sh, l\<lparr>pc := L144u\<rparr>, True)"
| "sh_at L144u r sh l =
     Some (sh\<lparr>locked := False\<rparr>, l\<lparr>ret := Some (expand (res l)), pc := Ret 144\<rparr>, False)"
| "sh_at L149u r sh l =
     Some (sh\<lparr>locked := False\<rparr>, l\<lparr>ret := Some (expand (res l)), pc := Ret 149\<rparr>, False)"
| "sh_at L153 r sh l = Some (sh\<lparr>calls := calls sh + 1\<rparr>, l\<lparr>pc := L153p\<rparr>, False)"
| "sh_at L153n r sh l =
     Some (sh, l\<lparr>res := produceResult (out l) (clk sh), pc := L154\<rparr>, False)"
| "sh_at L154 r sh l = Some (sh\<lparr>cell := Some (res l)\<rparr>, l\<lparr>pc := L156\<rparr>, False)"
| "sh_at L156 r sh l = Some (sh\<lparr>flag := 0\<rparr>, l\<lparr>pc := L157\<rparr>, False)"
| "sh_at L157 r sh l = Some (sh, l\<lparr>pc := L159u\<rparr>, True)"
| "sh_at L159u r sh l =
     Some (sh\<lparr>locked := False\<rparr>, l\<lparr>ret := Some (expand (res l)), pc := Ret 159\<rparr>, False)"
| "sh_at G90 r sh l = Some (sh\<lparr>calls := calls sh + 1\<rparr>, l\<lparr>pc := G90p\<rparr>, False)"
| "sh_at G90n r sh l =
     Some (sh, l\<lparr>res := produceResult (out l) (clk sh), pc := G90s\<rparr>, False)"
| "sh_at G90s r sh l = Some (sh\<lparr>cell := Some (res l)\<rparr>, l\<lparr>pc := G92\<rparr>, False)"
| "sh_at G92 r sh l =
     (if locked sh then None else Some (sh\<lparr>locked := True\<rparr>, l\<lparr>pc := G95\<rparr>, False))"
| "sh_at G95 r sh l = Some (sh\<lparr>flag := 0\<rparr>, l\<lparr>pc := G96\<rparr>, False)"
| "sh_at G96 r sh l = Some (sh, l\<lparr>pc := G97\<rparr>, True)"
| "sh_at G97 r sh l = Some (sh\<lparr>locked := False\<rparr>, l\<lparr>pc := GDone\<rparr>, False)"
| "sh_at _ r sh l = None"

definition sh_local_step ::
  "'p softHard \<Rightarrow> ('v, 'e) sh_shared \<Rightarrow> ('v, 'e) sh_local \<Rightarrow>
     (('v, 'e) sh_shared \<times> ('v, 'e) sh_local \<times> bool) option" where
  "sh_local_step r sh l = sh_at (pc l) r sh l"

text \<open>\<^verbatim>\<open>Broadcast\<close> wakes every thread blocked in \<^verbatim>\<open>Wait\<close>.\<close>

definition wake :: "(nat \<Rightarrow> ('v, 'e) sh_local) \<Rightarrow> nat \<Rightarrow> ('v, 'e) sh_local" where
  "wake th = (\<lambda>u. if pc (th u) = L134w then (th u)\<lparr>pc := L134r\<rparr> else th u)"

definition sh_idle :: "sh_pc \<Rightarrow> bool" where
  "sh_idle p = (case p of Free \<Rightarrow> True | GDone \<Rightarrow> True | Ret n \<Rightarrow> True | _ \<Rightarrow> False)"

text \<open>
  The \<^verbatim>\<open>go\<close> statement of \<^verbatim>\<open>updateAsync\<close>: the caller goes on to its \<^verbatim>\<open>return\<close>
  (without a deferred unlock after line 117, with one after line 148).
\<close>

definition sh_go :: "('v, 'e) sh_local \<Rightarrow> ('v, 'e) sh_local option" where
  "sh_go l =
     (case pc l of
        L117 \<Rightarrow> Some (l\<lparr>ret := Some (expand (res1 l)), pc := Ret 121\<rparr>)
      | L148 \<Rightarrow> Some (l\<lparr>pc := L149u\<rparr>)
      | _ \<Rightarrow> None)"

definition sh_return ::
  "'v option \<Rightarrow> 'e option \<Rightarrow> ('v, 'e) sh_local \<Rightarrow> ('v, 'e) sh_local option" where
  "sh_return v e l =
     (case pc l of
        L153p \<Rightarrow> Some (l\<lparr>out := (v, e), pc := L153n\<rparr>)
      | G90p \<Rightarrow> Some (l\<lparr>out := (v, e), pc := G90n\<rparr>)
      | _ \<Rightarrow> None)"

definition sh_step ::
  "'p softHard \<Rightarrow> ('v, 'e) action \<Rightarrow> ('v, 'e) sh_state \<Rightarrow> ('v, 'e) sh_state option" where
  "sh_step r a s =
     (case a of
        Call t \<Rightarrow>
          if sh_idle (pc (sth s t))
          then Some (s\<lparr>sth := (sth s)(t := (sth s t)\<lparr>pc := L101, invoked := clk (ssh s),
                                                      ret := None\<rparr>)\<rparr>)
          else None
      | Step t \<Rightarrow>
          (case sh_local_step r (ssh s) (sth s t) of
             None \<Rightarrow> None
           | Some (sh', l', b) \<Rightarrow>
               Some \<lparr>ssh = sh',
                     sth = (if b then wake ((sth s)(t := l')) else (sth s)(t := l'))\<rparr>)
      | Return t v e \<Rightarrow>
          (case sh_return v e (sth s t) of
             None \<Rightarrow> None
           | Some l' \<Rightarrow> Some (s\<lparr>sth := (sth s)(t := l')\<rparr>))
      | Go t g \<Rightarrow>
          (case sh_go (sth s t) of
             None \<Rightarrow> None
           | Some l' \<Rightarrow>
               if sh_idle (pc (sth s g)) \<and> g \<noteq> t
               then Some (s\<lparr>sth := (sth s)(t := l', g := (sth s g)\<lparr>pc := G90\<rparr>)\<rparr>)
               else None)
      | Tick d \<Rightarrow> Some (s\<lparr>ssh := (ssh s)\<lparr>clk := clk (ssh s) + int d\<rparr>\<rparr>))"

fun sh_exec ::
  "'p softHard \<Rightarrow> ('v, 'e) action list \<Rightarrow> ('v, 'e) sh_state \<Rightarrow> ('v, 'e) sh_state option" where
  "sh_exec r [] s = Some s"
| "sh_exec r (a # as) s =
     (case sh_step r a s of None \<Rightarrow> None | Some s' \<Rightarrow> sh_exec r as s')"

text \<open>
  The state of a new instance (\<^verbatim>\<open>result: &atomic.Value{}\<close>, a new mutex, state word
  0) when the clock shows \<open>t0\<close>; no thread runs anything.
\<close>

definition sh_local0 :: "('v, 'e) sh_local" where
  "sh_local0 = \<lparr>pc = Free, invoked = 0, res1 = zero_result, now1 = 0, res = zero_result,
                now = 0, out = (None, None), ret = None\<rparr>"

definition sh_init :: "time \<Rightarrow> ('v, 'e) sh_state" where
  "sh_init t0 =
     \<lparr>ssh = \<lparr>cell = None, flag = 0, locked = False, clk = t0, calls = 0\<rparr>,
      sth = (\<lambda>t. sh_local0)\<rparr>"

text \<open>
  A production is in flight on a thread from the call of the production function
  until its result is stored in the cell. The state word is owned (set to 1 by this
  thread, or handed over by the \<^verbatim>\<open>go\<close> statement, and not yet reset) at the program
  points of \<open>sh_owner\<close>.
\<close>

definition sh_producing :: "sh_pc \<Rightarrow> bool" where
  "sh_producing p = (p = L153p \<or> p = L153n \<or> p = L154 \<or> p = G90p \<or> p = G90n \<or> p = G90s)"

definition sh_owner :: "sh_pc \<Rightarrow> bool" where
  "sh_owner p =
     (p = L110 \<or> p = L111 \<or> p = L114 \<or> p = L117 \<or>
      p = L138 \<or> p = L139 \<or> p = L142 \<or> p = L148 \<or>
      p = L153 \<or> p = L153p \<or> p = L153n \<or> p = L154 \<or> p = L156 \<or>
      p = G90 \<or> p = G90p \<or> p = G90n \<or> p = G90s \<or> p = G92 \<or> p = G95)"

definition sh_excl :: "('v, 'e) sh_state \<Rightarrow> bool" where
  "sh_excl s =
     ((\<forall>t. sh_owner (pc (sth s t)) \<longrightarrow> flag (ssh s) = 1) \<and>
      (\<forall>t u. sh_owner (pc (sth s t)) \<longrightarrow> sh_owner (pc (sth s u)) \<longrightarrow> t = u))"

section \<open>What a call knows at each program point\<close>





section \<open>Zero periods\<close>


definition past :: "time \<Rightarrow> ('v, 'e) result \<Rightarrow> bool" where
  "past c x = (moment x = 0 \<or> moment x \<le> c)"



definition sh_zreach :: "sh_pc \<Rightarrow> bool" where
  "sh_zreach p =
     (case p of
        Free \<Rightarrow> True | L101 \<Rightarrow> True | L102 \<Rightarrow> True | L125 \<Rightarrow> True | L128 \<Rightarrow> True
      | L128n \<Rightarrow> True | L132 \<Rightarrow> True | L133 \<Rightarrow> True | L134 \<Rightarrow> True | L134w \<Rightarrow> True
      | L134r \<Rightarrow> True | L138 \<Rightarrow> True | L139 \<Rightarrow> True | L153 \<Rightarrow> True | L153p \<Rightarrow> True
      | L153n \<Rightarrow> True | L154 \<Rightarrow> True | L156 \<Rightarrow> True | L157 \<Rightarrow> True | L159u \<Rightarrow> True
      | Ret n \<Rightarrow> n = 159
      | _ \<Rightarrow> False)"



section \<open>Who acts\<close>

text \<open>The threads an action belongs to.\<close>

definition involves :: "('v, 'e) action \<Rightarrow> nat \<Rightarrow> bool" where
  "involves a t =
     (case a of
        Call u \<Rightarrow> u = t
      | Step u \<Rightarrow> u = t
      | Return u v e \<Rightarrow> u = t
      | Go u g \<Rightarrow> u = t \<or> g = t
      | Tick d \<Rightarrow> False)"

text \<open>
  \<open>sh_gap r t as s s'\<close>: the actions \<open>as\<close>, none of which belongs to thread \<open>t\<close>,
  lead from \<open>s\<close> to \<open>s'\<close>.
\<close>

definition sh_gap ::
  "'p softHard \<Rightarrow> nat \<Rightarrow> ('v, 'e) action list \<Rightarrow> ('v, 'e) sh_state \<Rightarrow> ('v, 'e) sh_state \<Rightarrow> bool"
  where
  "sh_gap r t as s s' = (sh_exec r as s = Some s' \<and> (\<forall>a\<in>set as. \<not> involves a t))"


section \<open>Kinds of construction errors\<close>

text \<open>
  The two messages of \<^verbatim>\<open>Validate\<close> report a negative period, the two messages of
  \<^verbatim>\<open>SoftHard\<close> a hard period less than the soft one.
\<close>

definition invalid_period :: "cerror \<Rightarrow> bool" where
  "invalid_period e =
     (case e of ErrDefaultNegative d \<Rightarrow> True | ErrErrorNegative d \<Rightarrow> True | _ \<Rightarrow> False)"

definition inverted_hard_soft :: "cerror \<Rightarrow> bool" where
  "inverted_hard_soft e =
     (case e of ErrDefaultHardLessSoft h s \<Rightarrow> True | ErrErrorHardLessSoft h s \<Rightarrow> True
      | _ \<Rightarrow> False)"

definition negative :: "Periods \<Rightarrow> bool" where
  "negative pp = (Default pp <s 0 \<or> Error pp <s 0)"

definition hard_less_soft :: "Periods \<Rightarrow> Periods \<Rightarrow> bool" where
  "hard_less_soft soft hard = (Default hard <s Default soft \<or> Error hard <s Error soft)"

section \<open>Who holds the write lock, who owns the state word\<close>

lemma od_locked_simps [simp]:
  "\<not> od_locked O_Free" "\<not> od_locked O69" "\<not> od_locked O70" "\<not> od_locked O70n"
  "\<not> od_locked O71" "\<not> od_locked O74" "\<not> od_locked O77"
  "od_locked O80" "od_locked O80n" "od_locked O81" "od_locked O81u"
  "od_locked O84" "od_locked O84p" "od_locked O84v" "od_locked O84e" "od_locked O84m"
  "od_locked O85" "od_locked O85u" "\<not> od_locked (O_Ret n)"
  by (simp_all add: od_locked_def)

lemma od_excl_upd:
  assumes i: "od_excl s"
    and k1: "od_locked (opc (oth s t)) \<Longrightarrow> od_locked (opc l') \<Longrightarrow> writer sh'"
    and k2: "\<not> od_locked (opc (oth s t)) \<Longrightarrow> od_locked (opc l') \<Longrightarrow> \<not> writer (osh s) \<and> writer sh'"
    and k3: "\<not> od_locked (opc (oth s t)) \<Longrightarrow> \<not> od_locked (opc l') \<Longrightarrow> writer sh' = writer (osh s)"
  shows "od_excl \<lparr>osh = sh', oth = (oth s)(t := l')\<rparr>"
proof -
  from i have a1: "\<And>x. od_locked (opc (oth s x)) \<Longrightarrow> writer (osh s)"
    and a2: "\<And>x y. od_locked (opc (oth s x)) \<Longrightarrow> od_locked (opc (oth s y)) \<Longrightarrow> x = y"
    unfolding od_excl_def by blast+
  have b1: "writer sh'" if "od_locked (opc (((oth s)(t := l')) x))" for x
  proof (cases "x = t")
    case True
    with that have "od_locked (opc l')" by simp
    then show ?thesis using k1 k2 by blast
  next
    case False
    with that have lx: "od_locked (opc (oth s x))" by simp
    with a2 False have "\<not> od_locked (opc (oth s t))" by blast
    moreover from lx a1 have "writer (osh s)" by blast
    ultimately show ?thesis using k2 k3 by blast
  qed
  have b2: "x = y" if "od_locked (opc (((oth s)(t := l')) x))"
    and "od_locked (opc (((oth s)(t := l')) y))" for x y
  proof (cases "x = t"; cases "y = t")
    assume "x = t" "y = t" then show ?thesis by simp
  next
    assume xy: "x = t" "y \<noteq> t"
    with that have l: "od_locked (opc l')" and ly: "od_locked (opc (oth s y))" by simp_all
    from ly a2 xy have "\<not> od_locked (opc (oth s t))" by blast
    with k2 l a1 ly show ?thesis by blast
  next
    assume xy: "x \<noteq> t" "y = t"
    with that have l: "od_locked (opc l')" and lx: "od_locked (opc (oth s x))" by simp_all
    from lx a2 xy have "\<not> od_locked (opc (oth s t))" by blast
    with k2 l a1 lx show ?thesis by blast
  next
    assume "x \<noteq> t" "y \<noteq> t"
    with that a2 show ?thesis by simp
  qed
  show ?thesis unfolding od_excl_def
  proof (intro conjI allI impI)
    fix x assume "od_locked (opc (oth \<lparr>osh = sh', oth = (oth s)(t := l')\<rparr> x))"
    then have "od_locked (opc (((oth s)(t := l')) x))" by simp
    from b1 [OF this] show "writer (osh \<lparr>osh = sh', oth = (oth s)(t := l')\<rparr>)" by simp
  next
    fix x y assume "od_locked (opc (oth \<lparr>osh = sh', oth = (oth s)(t := l')\<rparr> x))"
      and "od_locked (opc (oth \<lparr>osh = sh', oth = (oth s)(t := l')\<rparr> y))"
    then have "od_locked (opc (((oth s)(t := l')) x))" "od_locked (opc (((oth s)(t := l')) y))"
      by simp_all
    then show "x = y" by (rule b2)
  qed
qed

lemma od_local_excl:
  assumes "od_local_step pp sh l = Some (sh', l')"
  shows "(od_locked (opc l) \<longrightarrow> writer sh \<longrightarrow> od_locked (opc l') \<longrightarrow> writer sh') \<and>
         (\<not> od_locked (opc l) \<longrightarrow> od_locked (opc l') \<longrightarrow> \<not> writer sh \<and> writer sh') \<and>
         (\<not> od_locked (opc l) \<longrightarrow> \<not> od_locked (opc l') \<longrightarrow> writer sh' = writer sh)"
  using assms
  by (cases "opc l") (auto simp: od_local_step_def split: if_splits)

lemma od_idle_not_locked: "od_idle p \<Longrightarrow> \<not> od_locked p"
  by (cases p) (simp_all add: od_idle_def)

lemma od_step_excl:
  assumes "od_step pp a s = Some s'" and "od_excl s"
  shows "od_excl s'"
proof (cases a)
  case (Call t)
  with assms(1) have i: "od_idle (opc (oth s t))"
    and s': "s' = \<lparr>osh = osh s, oth = (oth s)(t := (oth s t)\<lparr>opc := O69, oret := None\<rparr>)\<rparr>"
    by (auto simp: od_step_def split: if_splits)
  show ?thesis unfolding s'
    by (rule od_excl_upd [OF assms(2)]) (use od_idle_not_locked [OF i] in simp_all)
next
  case (Step t)
  with assms(1) obtain sh' l' where st: "od_local_step pp (osh s) (oth s t) = Some (sh', l')"
    and s': "s' = \<lparr>osh = sh', oth = (oth s)(t := l')\<rparr>"
    by (auto simp: od_step_def split: option.splits)
  from assms(2) have w: "od_locked (opc (oth s t)) \<Longrightarrow> writer (osh s)"
    unfolding od_excl_def by blast
  note k = od_local_excl [OF st]
  show ?thesis unfolding s'
    by (rule od_excl_upd [OF assms(2)]) (use k w in blast)+
next
  case (Return t v e)
  with assms(1) have p: "opc (oth s t) = O84p"
    and s': "s' = \<lparr>osh = osh s, oth = (oth s)(t := (oth s t)\<lparr>oout := (v, e), opc := O84v\<rparr>)\<rparr>"
    by (auto simp: od_step_def split: if_splits)
  from assms(2) p have w: "writer (osh s)" unfolding od_excl_def
    by (metis od_locked_simps(13))
  show ?thesis unfolding s'
    by (rule od_excl_upd [OF assms(2)]) (use p w in simp_all)
next
  case (Go t g)
  with assms(1) show ?thesis by (simp add: od_step_def)
next
  case (Tick d)
  with assms show ?thesis by (auto simp: od_step_def od_excl_def)
qed

lemma od_exec_excl:
  "od_exec pp as s = Some s' \<Longrightarrow> od_excl s \<Longrightarrow> od_excl s'"
  by (induction as arbitrary: s) (auto split: option.splits intro: od_step_excl)

lemma od_init_excl: "od_excl (od_init t0)"
  by (simp add: od_excl_def od_init_def od_local0_def)

lemma od_producing_locked: "od_producing p \<Longrightarrow> od_locked p"
  by (auto simp: od_producing_def)

lemma sh_owner_simps [simp]:
  "\<not> sh_owner Free"
  "\<not> sh_owner L101"
  "\<not> sh_owner L102"
  "\<not> sh_owner L109"
  "sh_owner L110"
  "sh_owner L111"
  "sh_owner L114"
  "\<not> sh_owner L115"
  "sh_owner L117"
  "\<not> sh_owner L121u"
  "\<not> sh_owner L125"
  "\<not> sh_owner L128"
  "\<not> sh_owner L128n"
  "\<not> sh_owner L129u"
  "\<not> sh_owner L132"
  "\<not> sh_owner L133"
  "\<not> sh_owner L134"
  "\<not> sh_owner L134w"
  "\<not> sh_owner L134r"
  "sh_owner L138"
  "sh_owner L139"
  "sh_owner L142"
  "\<not> sh_owner L143"
  "\<not> sh_owner L144u"
  "sh_owner L148"
  "\<not> sh_owner L149u"
  "sh_owner L153"
  "sh_owner L153p"
  "sh_owner L153n"
  "sh_owner L154"
  "sh_owner L156"
  "\<not> sh_owner L157"
  "\<not> sh_owner L159u"
  "sh_owner G90"
  "sh_owner G90p"
  "sh_owner G90n"
  "sh_owner G90s"
  "sh_owner G92"
  "sh_owner G95"
  "\<not> sh_owner G96"
  "\<not> sh_owner G97"
  "\<not> sh_owner GDone"
  "\<not> sh_owner Panic"
  "\<not> sh_owner (Ret n)"
  by (simp_all add: sh_owner_def)


lemma sh_excl_upd:
  assumes i: "sh_excl s"
    and k1: "sh_owner (pc (sth s t)) \<Longrightarrow> sh_owner (pc l') \<Longrightarrow> flag sh' = 1"
    and k2: "\<not> sh_owner (pc (sth s t)) \<Longrightarrow> sh_owner (pc l') \<Longrightarrow> flag (ssh s) = 0 \<and> flag sh' = 1"
    and k3: "\<not> sh_owner (pc (sth s t)) \<Longrightarrow> \<not> sh_owner (pc l') \<Longrightarrow> flag sh' = flag (ssh s)"
  shows "sh_excl \<lparr>ssh = sh', sth = (sth s)(t := l')\<rparr>"
proof -
  from i have a1: "\<And>x. sh_owner (pc (sth s x)) \<Longrightarrow> flag (ssh s) = 1"
    and a2: "\<And>x y. sh_owner (pc (sth s x)) \<Longrightarrow> sh_owner (pc (sth s y)) \<Longrightarrow> x = y"
    unfolding sh_excl_def by blast+
  have b1: "flag sh' = 1" if "sh_owner (pc (((sth s)(t := l')) x))" for x
  proof (cases "x = t")
    case True
    with that have "sh_owner (pc l')" by simp
    then show ?thesis using k1 k2 by blast
  next
    case False
    with that have lx: "sh_owner (pc (sth s x))" by simp
    with a2 False have "\<not> sh_owner (pc (sth s t))" by blast
    moreover from lx a1 have f: "flag (ssh s) = 1" by blast
    ultimately show ?thesis using k2 k3 by (cases "sh_owner (pc l')") auto
  qed
  have b2: "x = y" if "sh_owner (pc (((sth s)(t := l')) x))"
    and "sh_owner (pc (((sth s)(t := l')) y))" for x y
  proof (cases "x = t"; cases "y = t")
    assume "x = t" "y = t" then show ?thesis by simp
  next
    assume xy: "x = t" "y \<noteq> t"
    with that have l: "sh_owner (pc l')" and ly: "sh_owner (pc (sth s y))" by simp_all
    from ly a2 xy have "\<not> sh_owner (pc (sth s t))" by blast
    with k2 l a1 ly show ?thesis by auto
  next
    assume xy: "x \<noteq> t" "y = t"
    with that have l: "sh_owner (pc l')" and lx: "sh_owner (pc (sth s x))" by simp_all
    from lx a2 xy have "\<not> sh_owner (pc (sth s t))" by blast
    with k2 l a1 lx show ?thesis by auto
  next
    assume "x \<noteq> t" "y \<noteq> t"
    with that a2 show ?thesis by simp
  qed
  show ?thesis unfolding sh_excl_def
  proof (intro conjI allI impI)
    fix x assume "sh_owner (pc (sth \<lparr>ssh = sh', sth = (sth s)(t := l')\<rparr> x))"
    then have "sh_owner (pc (((sth s)(t := l')) x))" by simp
    from b1 [OF this] show "flag (ssh \<lparr>ssh = sh', sth = (sth s)(t := l')\<rparr>) = 1" by simp
  next
    fix x y assume "sh_owner (pc (sth \<lparr>ssh = sh', sth = (sth s)(t := l')\<rparr> x))"
      and "sh_owner (pc (sth \<lparr>ssh = sh', sth = (sth s)(t := l')\<rparr> y))"
    then have "sh_owner (pc (((sth s)(t := l')) x))" "sh_owner (pc (((sth s)(t := l')) y))"
      by simp_all
    then show "x = y" by (rule b2)
  qed
qed

lemma sh_owner_wake: "sh_owner (pc (wake th x)) = sh_owner (pc (th x))"
  by (simp add: wake_def)

lemma sh_excl_wake:
  "sh_excl \<lparr>ssh = sh', sth = wake th\<rparr> = sh_excl \<lparr>ssh = sh', sth = th\<rparr>"
  by (simp add: sh_excl_def sh_owner_wake)

lemma sh_excl_handover:
  assumes i: "sh_excl s"
    and o: "sh_owner (pc (sth s t))" and n: "\<not> sh_owner (pc l')"
    and g: "g \<noteq> t" and og: "sh_owner (pc lg)"
  shows "sh_excl \<lparr>ssh = ssh s, sth = (sth s)(t := l', g := lg)\<rparr>"
proof -
  from i have a1: "\<And>x. sh_owner (pc (sth s x)) \<Longrightarrow> flag (ssh s) = 1"
    and a2: "\<And>x y. sh_owner (pc (sth s x)) \<Longrightarrow> sh_owner (pc (sth s y)) \<Longrightarrow> x = y"
    unfolding sh_excl_def by blast+
  have c: "x = g" if "sh_owner (pc (((sth s)(t := l', g := lg)) x))" for x
  proof (rule ccontr)
    assume xg: "x \<noteq> g"
    show False
    proof (cases "x = t")
      case True with that xg n show False by simp
    next
      case False
      with that xg have "sh_owner (pc (sth s x))" by simp
      from a2 [OF this o] False show False by simp
    qed
  qed
  show ?thesis unfolding sh_excl_def
  proof (intro conjI allI impI)
    fix x
    from a1 [OF o] show "flag (ssh \<lparr>ssh = ssh s, sth = (sth s)(t := l', g := lg)\<rparr>) = 1" by simp
  next
    fix x y assume "sh_owner (pc (sth \<lparr>ssh = ssh s, sth = (sth s)(t := l', g := lg)\<rparr> x))"
      and "sh_owner (pc (sth \<lparr>ssh = ssh s, sth = (sth s)(t := l', g := lg)\<rparr> y))"
    then have hx: "sh_owner (pc (((sth s)(t := l', g := lg)) x))"
      and hy: "sh_owner (pc (((sth s)(t := l', g := lg)) y))" by simp_all
    from c [OF hx] c [OF hy] show "x = y" by simp
  qed
qed

lemma sh_local_excl:
  assumes "sh_local_step r sh l = Some (sh', l', b)"
  shows "(sh_owner (pc l) \<longrightarrow> flag sh = 1 \<longrightarrow> sh_owner (pc l') \<longrightarrow> flag sh' = 1) \<and>
         (\<not> sh_owner (pc l) \<longrightarrow> sh_owner (pc l') \<longrightarrow> flag sh = 0 \<and> flag sh' = 1) \<and>
         (\<not> sh_owner (pc l) \<longrightarrow> \<not> sh_owner (pc l') \<longrightarrow> flag sh' = flag sh)"
  using assms
  by (cases "pc l") (auto simp: sh_local_step_def split: if_splits option.splits)

lemma sh_idle_not_owner: "sh_idle p \<Longrightarrow> \<not> sh_owner p"
  by (cases p) (simp_all add: sh_idle_def)

lemma sh_go_owner: "sh_go l = Some l' \<Longrightarrow> sh_owner (pc l) \<and> \<not> sh_owner (pc l')"
  by (cases "pc l") (auto simp: sh_go_def)

lemma sh_return_owner: "sh_return v e l = Some l' \<Longrightarrow> sh_owner (pc l) \<and> sh_owner (pc l')"
  by (cases "pc l") (auto simp: sh_return_def)

lemma sh_step_excl:
  assumes "sh_step r a s = Some s'" and "sh_excl s"
  shows "sh_excl s'"
proof (cases a)
  case (Call t)
  with assms(1) have i: "sh_idle (pc (sth s t))"
    and s': "s' = \<lparr>ssh = ssh s,
        sth = (sth s)(t := (sth s t)\<lparr>pc := L101, invoked := clk (ssh s), ret := None\<rparr>)\<rparr>"
    by (auto simp: sh_step_def split: if_splits)
  have n: "\<not> sh_owner L101" by simp
  show ?thesis unfolding s'
    by (rule sh_excl_upd [OF assms(2)]) (use n sh_idle_not_owner [OF i] in simp_all)
next
  case (Step t)
  with assms(1) obtain sh' l' b where st: "sh_local_step r (ssh s) (sth s t) = Some (sh', l', b)"
    and s': "s' = \<lparr>ssh = sh', sth = (if b then wake ((sth s)(t := l')) else (sth s)(t := l'))\<rparr>"
    by (auto simp: sh_step_def split: option.splits)
  from assms(2) have w: "sh_owner (pc (sth s t)) \<Longrightarrow> flag (ssh s) = 1"
    unfolding sh_excl_def by blast
  note k = sh_local_excl [OF st]
  have "sh_excl \<lparr>ssh = sh', sth = (sth s)(t := l')\<rparr>"
    by (rule sh_excl_upd [OF assms(2)]) (use k w in blast)+
  then show ?thesis unfolding s' by (cases b) (simp_all add: sh_excl_wake)
next
  case (Return t v e)
  with assms(1) obtain l' where p: "sh_return v e (sth s t) = Some l'"
    and s': "s' = \<lparr>ssh = ssh s, sth = (sth s)(t := l')\<rparr>"
    by (auto simp: sh_step_def split: option.splits)
  note n = sh_return_owner [OF p]
  from assms(2) n have w: "flag (ssh s) = 1" unfolding sh_excl_def by blast
  show ?thesis unfolding s'
    by (rule sh_excl_upd [OF assms(2)]) (use n w in simp_all)
next
  case (Go t g)
  with assms(1) obtain l' where p: "sh_go (sth s t) = Some l'"
    and g: "sh_idle (pc (sth s g))" "g \<noteq> t"
    and s': "s' = \<lparr>ssh = ssh s, sth = (sth s)(t := l', g := (sth s g)\<lparr>pc := G90\<rparr>)\<rparr>"
    by (auto simp: sh_step_def split: option.splits if_splits)
  note n = sh_go_owner [OF p]
  have o: "sh_owner (pc ((sth s g)\<lparr>pc := G90\<rparr>))" by simp
  show ?thesis unfolding s'
    by (rule sh_excl_handover [OF assms(2) _ _ g(2) o]) (use n in simp_all)
next
  case (Tick d)
  with assms show ?thesis by (auto simp: sh_step_def sh_excl_def)
qed

lemma sh_exec_excl:
  "sh_exec r as s = Some s' \<Longrightarrow> sh_excl s \<Longrightarrow> sh_excl s'"
  by (induction as arbitrary: s) (auto split: option.splits intro: sh_step_excl)

lemma sh_init_excl: "sh_excl (sh_init t0)"
  by (simp add: sh_excl_def sh_init_def sh_local0_def)

lemma sh_producing_owner: "sh_producing p \<Longrightarrow> sh_owner p"
  by (auto simp: sh_producing_def)

lemmas od_run = od_step_def od_local_step_def od_init_def od_local0_def od_idle_def
  zero_result_def isValidAt_def IsZero_def Add_def After_def Period_def New_def expand_def

lemmas sh_run = sh_step_def sh_local_step_def sh_init_def sh_local0_def sh_idle_def
  sh_go_def sh_return_def wake_def produceResult_def produce_def
  zero_result_def isValidAt_def IsZero_def Add_def After_def Period_def New_def expand_def


section \<open>Construction: the checks\<close>

lemma Validate_None: "(Validate pp = None) = (\<not> negative pp)"
  by (simp add: Validate_def negative_def)

lemma Validate_Some: "Validate pp = Some e \<Longrightarrow> invalid_period e \<and> negative pp"
  by (auto simp: Validate_def negative_def invalid_period_def split: if_splits)

lemma negative_hard: "negative hard \<Longrightarrow> \<not> negative soft \<Longrightarrow> hard_less_soft soft hard"
  by (auto simp: negative_def hard_less_soft_def word_sless_alt)

text \<open>
  Claim C4. Either constructor returns an error, and no instance, exactly when an input
  is invalid (a nil context, a nil producer, a negative period, a hard period less than
  the soft one of its category). A nil context gives \<open>ErrContextNil\<close>; otherwise a
  nil producer gives \<open>ErrProduceNil\<close>; otherwise a negative period of the (soft)
  periods gives the error of \<^verbatim>\<open>Validate\<close>; otherwise, for \<^verbatim>\<open>SoftHard\<close>, a hard period
  less than its soft period gives the ordering error. With a context, a producer,
  no negative period and no hard period less than its soft period, construction
  succeeds and the instance holds the arguments.
\<close>

theorem construction_checks:
  "(isl (OnDemand ctx pf pp) = (ctx = None \<or> pf = None \<or> negative pp)) \<and>
   (isl (SoftHard ctx pf soft hard) =
      (ctx = None \<or> pf = None \<or> negative soft \<or> negative hard \<or> hard_less_soft soft hard)) \<and>
   (ctx = None \<longrightarrow> OnDemand ctx pf pp = Inl ErrContextNil \<and>
      SoftHard ctx pf soft hard = Inl ErrContextNil) \<and>
   (ctx \<noteq> None \<and> pf = None \<longrightarrow> OnDemand ctx pf pp = Inl ErrProduceNil \<and>
      SoftHard ctx pf soft hard = Inl ErrProduceNil) \<and>
   (ctx \<noteq> None \<and> pf \<noteq> None \<and> negative pp \<longrightarrow>
      (\<exists>e. OnDemand ctx pf pp = Inl e \<and> invalid_period e)) \<and>
   (ctx \<noteq> None \<and> pf \<noteq> None \<and> negative soft \<longrightarrow>
      (\<exists>e. SoftHard ctx pf soft hard = Inl e \<and> invalid_period e)) \<and>
   (ctx \<noteq> None \<and> pf \<noteq> None \<and> \<not> negative soft \<and> hard_less_soft soft hard \<longrightarrow>
      (\<exists>e. SoftHard ctx pf soft hard = Inl e \<and> inverted_hard_soft e)) \<and>
   (\<forall>c f. ctx = Some c \<and> pf = Some f \<and> \<not> negative pp \<longrightarrow>
      OnDemand ctx pf pp = Inr \<lparr>od_ctx = c, od_produce = f, od_periods = pp\<rparr>) \<and>
   (\<forall>c f. ctx = Some c \<and> pf = Some f \<and> \<not> negative soft \<and> \<not> negative hard \<and>
       \<not> hard_less_soft soft hard \<longrightarrow>
      SoftHard ctx pf soft hard =
        Inr \<lparr>sh_ctx = c, sh_produce = f, sh_soft = soft, sh_hard = hard\<rparr>)"
proof -
  have od: "isl (OnDemand ctx pf pp) = (ctx = None \<or> pf = None \<or> negative pp)"
    by (auto simp: OnDemand_def Validate_None [symmetric] dest: Validate_Some
        split: option.splits)
  have sh0: "isl (SoftHard ctx pf soft hard) =
      (ctx = None \<or> pf = None \<or> negative soft \<or> hard_less_soft soft hard)"
    by (auto simp: SoftHard_def hard_less_soft_def Validate_None [symmetric]
        dest: Validate_Some split: option.splits)
  have sh: "isl (SoftHard ctx pf soft hard) =
      (ctx = None \<or> pf = None \<or> negative soft \<or> negative hard \<or> hard_less_soft soft hard)"
    unfolding sh0 using negative_hard by blast
  have nil: "ctx = None \<longrightarrow> OnDemand ctx pf pp = Inl ErrContextNil \<and>
      SoftHard ctx pf soft hard = Inl ErrContextNil"
    by (simp add: OnDemand_def SoftHard_def)
  have nilp: "ctx \<noteq> None \<and> pf = None \<longrightarrow> OnDemand ctx pf pp = Inl ErrProduceNil \<and>
      SoftHard ctx pf soft hard = Inl ErrProduceNil"
    by (auto simp: OnDemand_def SoftHard_def)
  have neg: "ctx \<noteq> None \<and> pf \<noteq> None \<and> negative pp \<longrightarrow>
      (\<exists>e. OnDemand ctx pf pp = Inl e \<and> invalid_period e)"
    using Validate_None [of pp] Validate_Some [of pp]
    by (cases "Validate pp") (auto simp: OnDemand_def)
  have negs: "ctx \<noteq> None \<and> pf \<noteq> None \<and> negative soft \<longrightarrow>
      (\<exists>e. SoftHard ctx pf soft hard = Inl e \<and> invalid_period e)"
    using Validate_None [of soft] Validate_Some [of soft]
    by (cases "Validate soft") (auto simp: SoftHard_def)
  have ord: "ctx \<noteq> None \<and> pf \<noteq> None \<and> \<not> negative soft \<and> hard_less_soft soft hard \<longrightarrow>
      (\<exists>e. SoftHard ctx pf soft hard = Inl e \<and> inverted_hard_soft e)"
    using Validate_None [of soft]
    by (auto simp: SoftHard_def hard_less_soft_def inverted_hard_soft_def)
  have ok: "\<forall>c f. ctx = Some c \<and> pf = Some f \<and> \<not> negative pp \<longrightarrow>
      OnDemand ctx pf pp = Inr \<lparr>od_ctx = c, od_produce = f, od_periods = pp\<rparr>"
    using Validate_None [of pp] by (auto simp: OnDemand_def)
  have oks: "\<forall>c f. ctx = Some c \<and> pf = Some f \<and> \<not> negative soft \<and> \<not> negative hard \<and>
       \<not> hard_less_soft soft hard \<longrightarrow>
      SoftHard ctx pf soft hard =
        Inr \<lparr>sh_ctx = c, sh_produce = f, sh_soft = soft, sh_hard = hard\<rparr>"
    using Validate_None [of soft] by (auto simp: SoftHard_def hard_less_soft_def)
  from od sh nil nilp neg negs ord ok oks show ?thesis by blast
qed

theorem construction_checks_witness:
  "isl (OnDemand (None :: ctx option) (Some (0::nat)) (New 75 100)) \<and>
   OnDemand (None :: ctx option) (Some (0::nat)) (New 75 100) = Inl ErrContextNil \<and>
   OnDemand (Some Background) (None :: nat option) (New 75 100) = Inl ErrProduceNil \<and>
   (\<exists>e. OnDemand (Some Background) (Some (0::nat)) (New (-1) 100) = Inl e \<and> invalid_period e) \<and>
   (\<exists>e. SoftHard (Some Background) (Some (0::nat)) (New 75 (-2)) (New 75 100) = Inl e \<and>
      invalid_period e) \<and>
   (\<exists>e. SoftHard (Some Background) (Some (0::nat)) (New 75 100) (New 74 100) = Inl e \<and>
      inverted_hard_soft e) \<and>
   OnDemand (Some Background) (Some (0::nat)) (New 75 100) =
     Inr \<lparr>od_ctx = Background, od_produce = 0, od_periods = New 75 100\<rparr> \<and>
   SoftHard (Some Background) (Some (0::nat)) (New 75 100) (New 150 200) =
     Inr \<lparr>sh_ctx = Background, sh_produce = 0, sh_soft = New 75 100, sh_hard = New 150 200\<rparr>"
proof -
  have n1: "\<not> negative (New 75 100)" "\<not> negative (New 150 200)"
    "negative (New (-1) 100)" "negative (New 75 (-2))"
    "hard_less_soft (New 75 100) (New 74 100)"
    "\<not> hard_less_soft (New 75 100) (New 150 200)"
    by (simp_all add: negative_def New_def hard_less_soft_def word_sless_alt)
  show ?thesis
    using construction_checks [where ctx = "None :: ctx option" and pf = "Some (0::nat)" and pp = "New 75 100" and soft = "New 75 100" and hard = "New 75 100"]
      construction_checks [where ctx = "Some Background" and pf = "None :: nat option" and pp = "New 75 100" and soft = "New 75 100" and hard = "New 75 100"]
      construction_checks [where ctx = "Some Background" and pf = "Some (0::nat)" and pp = "New (-1) 100" and soft = "New 75 (-2)" and hard = "New 75 100"]
      construction_checks [where ctx = "Some Background" and pf = "Some (0::nat)" and pp = "New 75 100" and soft = "New 75 100" and hard = "New 74 100"]
      construction_checks [where ctx = "Some Background" and pf = "Some (0::nat)" and pp = "New 75 100" and soft = "New 75 100" and hard = "New 150 200"]
      n1
    by simp
qed

text \<open>
  Claim C10. \<^verbatim>\<open>OnDemandNoCtx\<close> and \<^verbatim>\<open>SoftHardNoCtx\<close> never fail with
  \<open>ErrContextNil\<close>: every error they return is \<open>ErrProduceNil\<close> for a nil producer,
  an error of \<^verbatim>\<open>Validate\<close> for a negative period, or (for \<^verbatim>\<open>SoftHardNoCtx\<close>) the
  ordering error; and they fail exactly on those inputs.
\<close>

theorem no_ctx_constructors:
  "OnDemandNoCtx pf pp \<noteq> Inl ErrContextNil \<and>
   SoftHardNoCtx pf soft hard \<noteq> Inl ErrContextNil \<and>
   (\<forall>e. OnDemandNoCtx pf pp = Inl e \<longrightarrow>
      (e = ErrProduceNil \<and> pf = None) \<or> (invalid_period e \<and> negative pp)) \<and>
   (\<forall>e. SoftHardNoCtx pf soft hard = Inl e \<longrightarrow>
      (e = ErrProduceNil \<and> pf = None) \<or> (invalid_period e \<and> negative soft) \<or>
      (inverted_hard_soft e \<and> hard_less_soft soft hard)) \<and>
   (isl (OnDemandNoCtx pf pp) = (pf = None \<or> negative pp)) \<and>
   (isl (SoftHardNoCtx pf soft hard) =
      (pf = None \<or> negative soft \<or> negative hard \<or> hard_less_soft soft hard))"
proof -
  have a: "OnDemandNoCtx pf pp \<noteq> Inl ErrContextNil"
    by (auto simp: OnDemandNoCtx_def OnDemand_def Validate_def split: option.splits)
  have b: "SoftHardNoCtx pf soft hard \<noteq> Inl ErrContextNil"
    by (auto simp: SoftHardNoCtx_def SoftHard_def Validate_def split: option.splits)
  have c: "\<forall>e. OnDemandNoCtx pf pp = Inl e \<longrightarrow>
      (e = ErrProduceNil \<and> pf = None) \<or> (invalid_period e \<and> negative pp)"
    by (auto simp: OnDemandNoCtx_def OnDemand_def dest: Validate_Some split: option.splits)
  have d: "\<forall>e. SoftHardNoCtx pf soft hard = Inl e \<longrightarrow>
      (e = ErrProduceNil \<and> pf = None) \<or> (invalid_period e \<and> negative soft) \<or>
      (inverted_hard_soft e \<and> hard_less_soft soft hard)"
    by (auto simp: SoftHardNoCtx_def SoftHard_def inverted_hard_soft_def hard_less_soft_def
        dest: Validate_Some split: option.splits if_splits)
  have e: "isl (OnDemandNoCtx pf pp) = (pf = None \<or> negative pp)"
    by (auto simp: OnDemandNoCtx_def OnDemand_def Validate_None [symmetric]
        dest: Validate_Some split: option.splits)
  have f0: "isl (SoftHardNoCtx pf soft hard) =
      (pf = None \<or> negative soft \<or> hard_less_soft soft hard)"
    by (auto simp: SoftHardNoCtx_def SoftHard_def hard_less_soft_def Validate_None [symmetric]
        dest: Validate_Some split: option.splits)
  have f: "isl (SoftHardNoCtx pf soft hard) =
      (pf = None \<or> negative soft \<or> negative hard \<or> hard_less_soft soft hard)"
    unfolding f0 using negative_hard by blast
  from a b c d e f show ?thesis by blast
qed

theorem no_ctx_constructors_witness:
  "OnDemandNoCtx (None :: nat option) (New 75 100) = Inl ErrProduceNil \<and>
   (\<exists>e. SoftHardNoCtx (Some (0::nat)) (New 75 100) (New 74 100) = Inl e \<and> inverted_hard_soft e)"
proof -
  have "isl (SoftHardNoCtx (Some (0::nat)) (New 75 100) (New 74 100))"
    by (simp add: SoftHardNoCtx_def SoftHard_def Validate_def New_def word_sless_alt)
  then obtain e where e: "SoftHardNoCtx (Some (0::nat)) (New 75 100) (New 74 100) = Inl e"
    by (cases "SoftHardNoCtx (Some (0::nat)) (New 75 100) (New 74 100)") auto
  have n: "\<not> negative (New 75 100)"
    by (simp add: negative_def New_def word_sless_alt)
  have "isl (OnDemandNoCtx (None :: nat option) (New 75 100))"
    by (simp add: OnDemandNoCtx_def OnDemand_def)
  then obtain e' where e': "OnDemandNoCtx (None :: nat option) (New 75 100) = Inl e'"
    by (cases "OnDemandNoCtx (None :: nat option) (New 75 100)") auto
  from no_ctx_constructors [where pf = "None :: nat option" and pp = "New 75 100"]
    no_ctx_constructors [where pf = "Some (0::nat)" and soft = "New 75 100"
      and hard = "New 74 100"]
    e e' n show ?thesis by auto
qed

section \<open>Productions do not overlap\<close>

text \<open>
  Claim C1. In every state that a run of either strategy reaches from a new instance,
  whatever the interleaving of the callers' steps, at most one thread is between the
  call of the production function and the store of its result: no production starts
  before an earlier one has completed and stored its result.
\<close>

theorem at_most_one_producer:
  "(od_exec pp as (od_init t0) = Some s \<longrightarrow>
      od_producing (opc (oth s t)) \<longrightarrow> od_producing (opc (oth s u)) \<longrightarrow> t = u) \<and>
   (sh_exec r bs (sh_init t1) = Some s' \<longrightarrow>
      sh_producing (pc (sth s' t')) \<longrightarrow> sh_producing (pc (sth s' u')) \<longrightarrow> t' = u')"
proof (intro conjI impI)
  assume "od_exec pp as (od_init t0) = Some s"
  then have "od_excl s" using od_init_excl by (rule od_exec_excl)
  moreover assume "od_producing (opc (oth s t))" "od_producing (opc (oth s u))"
  then have "od_locked (opc (oth s t))" "od_locked (opc (oth s u))"
    by (simp_all add: od_producing_locked)
  ultimately show "t = u" unfolding od_excl_def by blast
next
  assume "sh_exec r bs (sh_init t1) = Some s'"
  then have "sh_excl s'" using sh_init_excl by (rule sh_exec_excl)
  moreover assume "sh_producing (pc (sth s' t'))" "sh_producing (pc (sth s' u'))"
  then have "sh_owner (pc (sth s' t'))" "sh_owner (pc (sth s' u'))"
    by (simp_all add: sh_producing_owner)
  ultimately show "t' = u'" unfolding sh_excl_def by blast
qed

theorem at_most_one_producer_witness:
  "(\<exists>s. od_exec (New 75 100)
           [Call 0, Call 1, Step 0, Step 0, Step 0, Step 0, Step 1, Step 1, Step 1, Step 1,
            Step 0, Step 0, Step 0, Step 0]
           (od_init 1 :: (nat, nat) od_state) = Some s \<and>
        od_producing (opc (oth s 0)) \<and> \<not> od_producing (opc (oth s 1))) \<and>
   (\<exists>s. sh_exec \<lparr>sh_ctx = Background, sh_produce = (), sh_soft = New 75 100,
                   sh_hard = New 150 200\<rparr>
           [Call 0, Call 1, Step 0, Step 1, Step 0, Step 0, Step 0, Step 0, Step 0]
           (sh_init 1 :: (nat, nat) sh_state) = Some s \<and>
        sh_producing (pc (sth s 0)) \<and> \<not> sh_producing (pc (sth s 1)))"
proof -
  let ?as = "[Call 0, Call 1, Step 0, Step 0, Step 0, Step 0, Step 1, Step 1, Step 1, Step 1,
            Step 0, Step 0, Step 0, Step 0] :: (nat, nat) action list"
  let ?bs = "[Call 0, Call 1, Step 0, Step 1, Step 0, Step 0, Step 0, Step 0, Step 0]
    :: (nat, nat) action list"
  let ?r = "\<lparr>sh_ctx = Background, sh_produce = (), sh_soft = New 75 100,
            sh_hard = New 150 200\<rparr>"
  have "\<exists>s. od_exec (New 75 100) ?as (od_init 1) = Some s \<and> od_producing (opc (oth s 0))"
    by (simp add: od_run od_producing_def)
  then obtain s where s: "od_exec (New 75 100) ?as (od_init 1) = Some s"
    and p: "od_producing (opc (oth s 0))" by blast
  have "\<exists>s. sh_exec ?r ?bs (sh_init 1) = Some s \<and> sh_producing (pc (sth s 0))"
    by (simp add: sh_run sh_producing_def)
  then obtain s' where s': "sh_exec ?r ?bs (sh_init 1) = Some s'"
    and p': "sh_producing (pc (sth s' 0))" by blast
  from at_most_one_producer [where pp = "New 75 100" and as = ?as and ?t0.0 = 1 and s = s
      and t = 0 and u = 1 and r = ?r and bs = ?bs and ?t1.0 = 1 and s' = s'
      and t' = 0 and u' = 1] s p s' p'
  have "\<not> od_producing (opc (oth s 1))" and "\<not> sh_producing (pc (sth s' 1))" by auto
  with s p s' p' show ?thesis by blast
qed

text \<open>
  Claim C5, a run of the code. \<^verbatim>\<open>Get\<close> reads the result it returns on its first
  path (\<^verbatim>\<open>res.expand()\<close> in line 74, through the pointer that \<^verbatim>\<open>get\<close> returned) after
  \<^verbatim>\<open>RUnlock\<close>. Periods of 10 ns, clock at 1: thread 0 produces \<open>(7, nil)\<close>; thread 1
  finds it valid under the read lock and unlocks; 20 ns later thread 2 finds it
  expired, takes the write lock, its production function returns \<open>(nil, 0)\<close> and it
  assigns \<^verbatim>\<open>r.val\<close>; thread 1 now executes line 74 and returns \<open>(nil, nil)\<close>, a
  pair that the production function never returned and that is not the result it
  found valid (still in \<open>otmp\<close>).
\<close>

theorem od_get_reads_after_unlock:
  "map_option
     (\<lambda>s. (opc (oth s 1), ovalid (oth s 1), otmp (oth s 1), oret (oth s 1),
           opc (oth s 2), ocalls (osh s)))
     (od_exec (New 10 10)
        [Call 0, Step 0, Step 0, Step 0, Step 0, Step 0, Step 0, Step 0, Step 0,
         Return 0 (Some 7) None, Step 0, Step 0, Step 0, Step 0, Step 0,
         Call 1, Step 1, Step 1, Step 1, Step 1,
         Tick 20,
         Call 2, Step 2, Step 2, Step 2, Step 2, Step 2, Step 2, Step 2, Step 2,
         Return 2 None (Some 0), Step 2,
         Step 1]
        (od_init 1 :: (nat, nat) od_state)) =
   Some (O_Ret 74, True, \<lparr>val = Some 7, err = None, moment = 1\<rparr>, Some (None, None),
         O84e, 2)"
  by (simp add: od_run)

section \<open>What a call that must not serve the cached result returns\<close>


lemma isValidAt_zero [simp]: "\<not> isValidAt t pp zero_result"
  by (simp add: isValidAt_def zero_result_def IsZero_def)

lemma moment_zero [simp]: "moment zero_result = 0"
  by (simp add: zero_result_def)


















section \<open>Validity, and zero periods\<close>



lemma past_zero [simp]: "past c zero_result"
  by (simp add: past_def)








lemma sh_zreach_simps [simp]:
  "sh_zreach Free" "sh_zreach L101" "sh_zreach L102" "sh_zreach L125" "sh_zreach L128"
  "sh_zreach L128n" "sh_zreach L132" "sh_zreach L133" "sh_zreach L134" "sh_zreach L134w"
  "sh_zreach L134r" "sh_zreach L138" "sh_zreach L139" "sh_zreach L153" "sh_zreach L153p"
  "sh_zreach L153n" "sh_zreach L154" "sh_zreach L156" "sh_zreach L157" "sh_zreach L159u"
  "sh_zreach (Ret n) = (n = 159)"
  "\<not> sh_zreach L109" "\<not> sh_zreach L110" "\<not> sh_zreach L111" "\<not> sh_zreach L114"
  "\<not> sh_zreach L115" "\<not> sh_zreach L117" "\<not> sh_zreach L121u" "\<not> sh_zreach L129u"
  "\<not> sh_zreach L142" "\<not> sh_zreach L143" "\<not> sh_zreach L144u" "\<not> sh_zreach L148"
  "\<not> sh_zreach L149u" "\<not> sh_zreach G90" "\<not> sh_zreach G90p" "\<not> sh_zreach G90n"
  "\<not> sh_zreach G90s" "\<not> sh_zreach G92" "\<not> sh_zreach G95" "\<not> sh_zreach G96"
  "\<not> sh_zreach G97" "\<not> sh_zreach GDone" "\<not> sh_zreach Panic"
  by (simp_all add: sh_zreach_def)

lemma past_produceResult [simp]: "past c (produceResult pr c)"
  by (simp add: past_def produceResult_def produce_def)














section \<open>The path without locks\<close>

lemma sh_step_frame:
  assumes "sh_step r a s = Some s'" and "\<not> involves a t" and "pc (sth s t) \<noteq> L134w"
  shows "sth s' t = sth s t"
  using assms
  by (cases a)
    (auto simp: sh_step_def involves_def wake_def split: option.splits if_splits)

lemma sh_exec_frame:
  "sh_exec r as s = Some s' \<Longrightarrow> \<forall>a\<in>set as. \<not> involves a t \<Longrightarrow> pc (sth s t) \<noteq> L134w \<Longrightarrow>
     sth s' t = sth s t"
proof (induction as arbitrary: s)
  case Nil
  then show ?case by simp
next
  case (Cons a as)
  from Cons.prems(1) obtain s1 where a: "sh_step r a s = Some s1"
    and r: "sh_exec r as s1 = Some s'" by (auto split: option.splits)
  from Cons.prems(2) have na: "\<not> involves a t" and nas: "\<forall>a\<in>set as. \<not> involves a t" by simp_all
  from sh_step_frame [OF a na Cons.prems(3)] have e: "sth s1 t = sth s t" .
  with Cons.prems(3) have "pc (sth s1 t) \<noteq> L134w" by simp
  from Cons.IH [OF r nas this] e show ?case by simp
qed

text \<open>
  Claim C6. A call of \<^verbatim>\<open>softHard.Get\<close> that loads the result \<open>x\<close> from the cell
  and, whatever the other threads and the clock do in between, finds \<open>x\<close> valid
  under the soft periods at its clock reading returns the pair of \<open>x\<close> from line
  105. Its two steps (the atomic load, and the clock reading with the test) leave
  the shared memory as it is (the cell, the mutex, the state word and the number of
  calls of the production function) and touch no other thread.
\<close>

theorem soft_valid_get:
  assumes p: "pc (sth s t) = L101" and c: "cell (ssh s) = Some x"
    and a: "sh_step r (Step t) s = Some sa"
    and o: "sh_exec r as sa = Some sb" "\<forall>a\<in>set as. \<not> involves a t"
    and v: "isValidAt (clk (ssh sb)) (sh_soft r) x"
    and b: "sh_step r (Step t) sb = Some sc"
  shows "ssh sa = ssh s \<and> ssh sc = ssh sb \<and>
         (\<forall>u. u \<noteq> t \<longrightarrow> sth sa u = sth s u \<and> sth sc u = sth sb u) \<and>
         pc (sth sc t) = Ret 105 \<and> ret (sth sc t) = Some (expand x)"
proof -
  from a p c have sa: "sa = \<lparr>ssh = ssh s, sth = (sth s)(t := (sth s t)\<lparr>res1 := x, pc := L102\<rparr>)\<rparr>"
    by (auto simp: sh_step_def sh_local_step_def)
  then have pa: "pc (sth sa t) = L102" and ra: "res1 (sth sa t) = x" by simp_all
  from pa have "pc (sth sa t) \<noteq> L134w" by simp
  from sh_exec_frame [OF o this] have e: "sth sb t = sth sa t" .
  with pa ra have pb: "pc (sth sb t) = L102" and rb: "res1 (sth sb t) = x" by simp_all
  from b pb rb v have sc: "sc = \<lparr>ssh = ssh sb,
      sth = (sth sb)(t := (sth sb t)\<lparr>now1 := clk (ssh sb), ret := Some (expand x),
        pc := Ret 105\<rparr>)\<rparr>"
    by (auto simp: sh_step_def sh_local_step_def)
  show ?thesis unfolding sa sc by simp
qed


theorem soft_valid_get_witness:
  "\<exists>s sa sb sc.
     sh_exec \<lparr>sh_ctx = Background, sh_produce = (), sh_soft = New 10 10, sh_hard = New 20 20\<rparr>
       [Call 0, Step 0, Step 0, Step 0, Step 0, Step 0, Step 0,
        Return 0 (Some 7) None, Step 0, Step 0, Step 0, Step 0, Step 0, Call 1]
       (sh_init 1 :: (nat, nat) sh_state) = Some s \<and>
     sh_step \<lparr>sh_ctx = Background, sh_produce = (), sh_soft = New 10 10, sh_hard = New 20 20\<rparr>
       (Step 1) s = Some sa \<and>
     sh_exec \<lparr>sh_ctx = Background, sh_produce = (), sh_soft = New 10 10, sh_hard = New 20 20\<rparr>
       [Tick 3, Call 2, Step 2] sa = Some sb \<and>
     sh_step \<lparr>sh_ctx = Background, sh_produce = (), sh_soft = New 10 10, sh_hard = New 20 20\<rparr>
       (Step 1) sb = Some sc \<and>
     ssh sa = ssh s \<and> ssh sc = ssh sb \<and> calls (ssh sc) = 1 \<and>
     pc (sth sc 1) = Ret 105 \<and> ret (sth sc 1) = Some (Some 7, None)"
proof -
  let ?r = "\<lparr>sh_ctx = Background, sh_produce = (), sh_soft = New 10 10, sh_hard = New 20 20\<rparr>"
  let ?x = "\<lparr>val = Some (7::nat), err = (None :: nat option), moment = 1\<rparr>"
  have "\<exists>s sa sb sc.
     sh_exec ?r
       [Call 0, Step 0, Step 0, Step 0, Step 0, Step 0, Step 0,
        Return 0 (Some 7) None, Step 0, Step 0, Step 0, Step 0, Step 0, Call 1]
       (sh_init 1 :: (nat, nat) sh_state) = Some s \<and>
     sh_step ?r (Step 1) s = Some sa \<and>
     sh_exec ?r [Tick 3, Call 2, Step 2] sa = Some sb \<and>
     sh_step ?r (Step 1) sb = Some sc \<and>
     pc (sth s 1) = L101 \<and> cell (ssh s) = Some ?x \<and>
     isValidAt (clk (ssh sb)) (sh_soft ?r) ?x \<and> calls (ssh sc) = 1"
    by (simp add: sh_run involves_def)
  then obtain s sa sb sc where
    s: "sh_exec ?r
       [Call 0, Step 0, Step 0, Step 0, Step 0, Step 0, Step 0,
        Return 0 (Some 7) None, Step 0, Step 0, Step 0, Step 0, Step 0, Call 1]
       (sh_init 1 :: (nat, nat) sh_state) = Some s"
    and a: "sh_step ?r (Step 1) s = Some sa"
    and o: "sh_exec ?r [Tick 3, Call 2, Step 2] sa = Some sb"
    and b: "sh_step ?r (Step 1) sb = Some sc"
    and p: "pc (sth s 1) = L101" and c: "cell (ssh s) = Some ?x"
    and v: "isValidAt (clk (ssh sb)) (sh_soft ?r) ?x" and k: "calls (ssh sc) = 1"
    by blast
  have n: "\<forall>a\<in>set [Tick 3, Call 2, Step 2 :: (nat, nat) action]. \<not> involves a 1"
    by (simp add: involves_def)
  from soft_valid_get [OF p c a o n v b] s a o b k show ?thesis
    by (auto simp: expand_def)
qed

section \<open>The refresh within the hard window\<close>

lemma sh_local_beside_owner:
  assumes "sh_local_step r sh l = Some (sh', l', b)" and "\<not> sh_owner (pc l)" and "flag sh = 1"
  shows "cell sh' = cell sh \<and> flag sh' = flag sh \<and> calls sh' = calls sh"
  using assms
  by (cases "pc l") (auto simp: sh_local_step_def split: if_splits option.splits)

lemma sh_step_beside_owner:
  assumes st: "sh_step r a s = Some s'" and x: "sh_excl s"
    and o: "sh_owner (pc (sth s t))" and n: "\<not> involves a t"
  shows "cell (ssh s') = cell (ssh s) \<and> flag (ssh s') = flag (ssh s) \<and>
         calls (ssh s') = calls (ssh s)"
proof -
  from x o have f: "flag (ssh s) = 1"
    and u: "\<And>y. sh_owner (pc (sth s y)) \<Longrightarrow> y = t"
    unfolding sh_excl_def by blast+
  show ?thesis
  proof (cases a)
    case (Call y)
    with st show ?thesis by (auto simp: sh_step_def split: if_splits)
  next
    case (Step y)
    with n have yt: "y \<noteq> t" by (simp add: involves_def)
    from Step st obtain sh' l' b where l: "sh_local_step r (ssh s) (sth s y) = Some (sh', l', b)"
      and s': "ssh s' = sh'"
      by (auto simp: sh_step_def split: option.splits)
    from u [of y] yt have "\<not> sh_owner (pc (sth s y))" by blast
    from sh_local_beside_owner [OF l this f] s' show ?thesis by simp
  next
    case (Return y v e)
    with n have yt: "y \<noteq> t" by (simp add: involves_def)
    from Return st obtain l' where "sh_return v e (sth s y) = Some l'"
      by (auto simp: sh_step_def split: option.splits)
    from sh_return_owner [OF this] u [of y] yt show ?thesis by blast
  next
    case (Go y g)
    with n have yt: "y \<noteq> t" by (simp add: involves_def)
    from Go st obtain l' where "sh_go (sth s y) = Some l'"
      by (auto simp: sh_step_def split: option.splits)
    from sh_go_owner [OF this] u [of y] yt show ?thesis by blast
  next
    case (Tick d)
    with st show ?thesis by (auto simp: sh_step_def)
  qed
qed

lemma sh_owner_not_waiting: "sh_owner p \<Longrightarrow> p \<noteq> L134w"
  by auto

lemma sh_exec_beside_owner:
  "sh_exec r as s = Some s' \<Longrightarrow> sh_excl s \<Longrightarrow> sh_owner (pc (sth s t)) \<Longrightarrow>
     \<forall>a\<in>set as. \<not> involves a t \<Longrightarrow>
     cell (ssh s') = cell (ssh s) \<and> flag (ssh s') = flag (ssh s) \<and>
     calls (ssh s') = calls (ssh s) \<and> sth s' t = sth s t \<and> sh_excl s'"
proof (induction as arbitrary: s)
  case Nil
  then show ?case by simp
next
  case (Cons a as)
  from Cons.prems(1) obtain s1 where a: "sh_step r a s = Some s1"
    and r: "sh_exec r as s1 = Some s'" by (auto split: option.splits)
  from Cons.prems(4) have na: "\<not> involves a t" and nas: "\<forall>a\<in>set as. \<not> involves a t" by simp_all
  from sh_step_beside_owner [OF a Cons.prems(2,3) na]
  have k: "cell (ssh s1) = cell (ssh s)" "flag (ssh s1) = flag (ssh s)"
    "calls (ssh s1) = calls (ssh s)" by simp_all
  from sh_step_frame [OF a na sh_owner_not_waiting [OF Cons.prems(3)]]
  have e: "sth s1 t = sth s t" .
  from sh_step_excl [OF a Cons.prems(2)] have x1: "sh_excl s1" .
  from e Cons.prems(3) have o1: "sh_owner (pc (sth s1 t))" by simp
  from Cons.IH [OF r x1 o1 nas] k e show ?case by simp
qed

lemma sh_gap_owner:
  assumes "sh_gap r t as s s'" and "sh_excl s" and "sh_owner (pc (sth s t))"
  shows "cell (ssh s') = cell (ssh s) \<and> flag (ssh s') = flag (ssh s) \<and>
         calls (ssh s') = calls (ssh s) \<and> sth s' t = sth s t \<and> sh_excl s'"
  using assms sh_exec_beside_owner unfolding sh_gap_def by blast

lemma sh_gap_frame:
  assumes "sh_gap r t as s s'" and "pc (sth s t) \<noteq> L134w"
  shows "sth s' t = sth s t"
  using assms sh_exec_frame unfolding sh_gap_def by blast

lemma sh_gap_excl: "sh_gap r t as s s' \<Longrightarrow> sh_excl s \<Longrightarrow> sh_excl s'"
  using sh_exec_excl unfolding sh_gap_def by blast

lemma broadcast_wakes:
  assumes "sth s' = wake ((sth s)(t := l'))" and "pc (sth s t) \<noteq> L134w" and "pc l' \<noteq> L134w"
  shows "(\<forall>u. pc (sth s u) = L134w \<longrightarrow> sth s' u = (sth s u)\<lparr>pc := L134r\<rparr>) \<and>
         (\<forall>u. pc (sth s' u) \<noteq> L134w)"
  using assms by (auto simp: wake_def)


lemmas sh_solo = sh_step_def sh_local_step_def sh_go_def sh_return_def

lemma produceResult_eq: "produceResult (v, e) c = \<lparr>val = v, err = e, moment = c\<rparr>"
  by (simp add: produceResult_def produce_def zero_result_def)

lemma refresh_reload:
  assumes x: "sh_excl s0" and p: "pc (sth s0 t) = L109" and f: "flag (ssh s0) = 0"
    and c: "cell (ssh s0) = Some x"
    and t1: "sh_step r (Step t) s0 = Some s1" and g1: "sh_gap r t as1 s1 s2"
    and t2: "sh_step r (Step t) s2 = Some s3"
  shows "pc (sth s1 t) = L110 \<and> flag (ssh s1) = 1 \<and>
         cell (ssh s3) = Some x \<and> flag (ssh s3) = 1 \<and>
         calls (ssh s3) = calls (ssh s0) \<and> res1 (sth s3 t) = x \<and>
         pc (sth s3 t) = (if isValidAt (now1 (sth s0 t)) (sh_soft r) x then L111 else L117) \<and>
         sh_excl s3"
proof -
  from t1 p f have s1: "s1 = \<lparr>ssh = (ssh s0)\<lparr>flag := 1\<rparr>,
      sth = (sth s0)(t := (sth s0 t)\<lparr>pc := L110\<rparr>)\<rparr>"
    by (auto simp: sh_solo)
  from sh_step_excl [OF t1 x] have x1: "sh_excl s1" .
  from s1 have o1: "sh_owner (pc (sth s1 t))" by simp
  from sh_gap_owner [OF g1 x1 o1] s1 c
  have k2: "cell (ssh s2) = Some x" "flag (ssh s2) = 1" "calls (ssh s2) = calls (ssh s0)"
    and e2: "sth s2 t = (sth s0 t)\<lparr>pc := L110\<rparr>" and x2: "sh_excl s2"
    by simp_all
  from t2 e2 k2 have s3: "s3 = \<lparr>ssh = ssh s2,
      sth = (sth s2)(t := (sth s2 t)\<lparr>res1 := x,
        pc := (if isValidAt (now1 (sth s0 t)) (sh_soft r) x then L111 else L117)\<rparr>)\<rparr>"
    by (auto simp: sh_solo)
  from sh_step_excl [OF t2 x2] have x3: "sh_excl s3" .
  from s1 s3 k2 x3 show ?thesis by simp
qed

lemma refresh_fresh:
  assumes x: "sh_excl s0" and p: "pc (sth s0 t) = L109" and f: "flag (ssh s0) = 0"
    and c: "cell (ssh s0) = Some x"
    and t1: "sh_step r (Step t) s0 = Some s1" and g1: "sh_gap r t as1 s1 s2"
    and t2: "sh_step r (Step t) s2 = Some s3"
    and v: "isValidAt (now1 (sth s0 t)) (sh_soft r) x"
    and g2: "sh_gap r t as2 s3 s4" and t3: "sh_step r (Step t) s4 = Some s5"
    and g3: "sh_gap r t as3 s5 s6" and t4: "sh_step r (Step t) s6 = Some s7"
    and g4: "sh_gap r t as4 s7 s8" and t5: "sh_step r (Step t) s8 = Some s9"
    and g5: "sh_gap r t as5 s9 s10" and t6: "sh_step r (Step t) s10 = Some s11"
  shows "pc (sth s3 t) = L111 \<and> \<not> locked (ssh s4) \<and> locked (ssh s5) \<and>
         cell (ssh s7) = Some x \<and> calls (ssh s7) = calls (ssh s0) \<and> flag (ssh s7) = 0 \<and>
         ssh s9 = ssh s8 \<and>
         (\<forall>u. pc (sth s8 u) = L134w \<longrightarrow> sth s9 u = (sth s8 u)\<lparr>pc := L134r\<rparr>) \<and>
         (\<forall>u. pc (sth s9 u) \<noteq> L134w) \<and>
         pc (sth s11 t) = Ret 121 \<and> ret (sth s11 t) = Some (expand x) \<and>
         calls (ssh s11) = calls (ssh s10) \<and> cell (ssh s11) = cell (ssh s10) \<and>
         \<not> locked (ssh s11)"
proof -
  from refresh_reload [OF x p f c t1 g1 t2] v
  have k3: "cell (ssh s3) = Some x" "flag (ssh s3) = 1" "calls (ssh s3) = calls (ssh s0)"
    and l3: "res1 (sth s3 t) = x" "pc (sth s3 t) = L111" and x3: "sh_excl s3"
    by simp_all
  from l3 have o3: "sh_owner (pc (sth s3 t))" by simp
  from sh_gap_owner [OF g2 x3 o3] k3 l3
  have k4: "cell (ssh s4) = Some x" "flag (ssh s4) = 1" "calls (ssh s4) = calls (ssh s0)"
    and l4: "res1 (sth s4 t) = x" "pc (sth s4 t) = L111" and x4: "sh_excl s4"
    by simp_all
  from t3 l4 have n4: "\<not> locked (ssh s4)"
    and s5: "s5 = \<lparr>ssh = (ssh s4)\<lparr>locked := True\<rparr>, sth = (sth s4)(t := (sth s4 t)\<lparr>pc := L114\<rparr>)\<rparr>"
    by (auto simp: sh_solo split: if_splits)
  from sh_step_excl [OF t3 x4] have x5: "sh_excl s5" .
  from s5 have o5: "sh_owner (pc (sth s5 t))" by simp
  from sh_gap_owner [OF g3 x5 o5] s5 k4 l4
  have k6: "cell (ssh s6) = Some x" "calls (ssh s6) = calls (ssh s0)"
    and l6: "res1 (sth s6 t) = x" "pc (sth s6 t) = L114"
    by simp_all
  from t4 l6 have s7: "s7 = \<lparr>ssh = (ssh s6)\<lparr>flag := 0\<rparr>,
      sth = (sth s6)(t := (sth s6 t)\<lparr>pc := L115\<rparr>)\<rparr>"
    by (auto simp: sh_solo)
  from s7 have "pc (sth s7 t) \<noteq> L134w" by simp
  from sh_gap_frame [OF g4 this] s7 l6
  have l8: "res1 (sth s8 t) = x" "pc (sth s8 t) = L115" by simp_all
  from t5 l8 have s9: "ssh s9 = ssh s8"
    "sth s9 = wake ((sth s8)(t := (sth s8 t)\<lparr>pc := L121u\<rparr>))"
    by (auto simp: sh_solo)
  from l8 have "pc (sth s8 t) \<noteq> L134w" by simp
  from broadcast_wakes [OF s9(2) this]
  have w: "\<forall>u. pc (sth s8 u) = L134w \<longrightarrow> sth s9 u = (sth s8 u)\<lparr>pc := L134r\<rparr>"
    "\<forall>u. pc (sth s9 u) \<noteq> L134w" by simp_all
  from s9 l8 have l9: "res1 (sth s9 t) = x" "pc (sth s9 t) = L121u" by (simp_all add: wake_def)
  then have "pc (sth s9 t) \<noteq> L134w" by simp
  from sh_gap_frame [OF g5 this] l9
  have l10: "res1 (sth s10 t) = x" "pc (sth s10 t) = L121u" by simp_all
  from t6 l10 have s11: "s11 = \<lparr>ssh = (ssh s10)\<lparr>locked := False\<rparr>,
      sth = (sth s10)(t := (sth s10 t)\<lparr>ret := Some (expand x), pc := Ret 121\<rparr>)\<rparr>"
    by (auto simp: sh_solo)
  from l3 n4 s5 s7 k6 s9(1) w s11 show ?thesis by simp
qed

lemma refresh_stale:
  assumes x: "sh_excl s0" and p: "pc (sth s0 t) = L109" and f: "flag (ssh s0) = 0"
    and c: "cell (ssh s0) = Some x"
    and t1: "sh_step r (Step t) s0 = Some s1" and g1: "sh_gap r t as1 s1 s2"
    and t2: "sh_step r (Step t) s2 = Some s3"
    and v: "\<not> isValidAt (now1 (sth s0 t)) (sh_soft r) x"
    and g2: "sh_gap r t as2 s3 s4" and t3: "sh_step r (Go t g) s4 = Some s5"
    and h1: "sh_gap r g bs1 s5 s6" and u1: "sh_step r (Step g) s6 = Some s7"
    and h2: "sh_gap r g bs2 s7 s8" and u2: "sh_step r (Return g v' e') s8 = Some s9"
    and h3: "sh_gap r g bs3 s9 s10" and u3: "sh_step r (Step g) s10 = Some s11"
    and h4: "sh_gap r g bs4 s11 s12" and u4: "sh_step r (Step g) s12 = Some s13"
    and h5: "sh_gap r g bs5 s13 s14" and u5: "sh_step r (Step g) s14 = Some s15"
    and h6: "sh_gap r g bs6 s15 s16" and u6: "sh_step r (Step g) s16 = Some s17"
    and h7: "sh_gap r g bs7 s17 s18" and u7: "sh_step r (Step g) s18 = Some s19"
    and h8: "sh_gap r g bs8 s19 s20" and u8: "sh_step r (Step g) s20 = Some s21"
  shows "pc (sth s3 t) = L117 \<and>
         ssh s5 = ssh s4 \<and> pc (sth s5 t) = Ret 121 \<and> ret (sth s5 t) = Some (expand x) \<and>
         pc (sth s5 g) = G90 \<and> flag (ssh s5) = 1 \<and> cell (ssh s5) = Some x \<and>
         calls (ssh s5) = calls (ssh s0) \<and>
         calls (ssh s7) = calls (ssh s0) + 1 \<and> cell (ssh s12) = Some x \<and>
         cell (ssh s13) = Some \<lparr>val = v', err = e', moment = clk (ssh s10)\<rparr> \<and>
         cell (ssh s16) = cell (ssh s13) \<and> calls (ssh s16) = calls (ssh s0) + 1 \<and>
         \<not> locked (ssh s14) \<and> locked (ssh s15) \<and> flag (ssh s16) = 1 \<and> flag (ssh s17) = 0 \<and>
         ssh s19 = ssh s18 \<and>
         (\<forall>u. pc (sth s18 u) = L134w \<longrightarrow> sth s19 u = (sth s18 u)\<lparr>pc := L134r\<rparr>) \<and>
         (\<forall>u. pc (sth s19 u) \<noteq> L134w) \<and>
         pc (sth s21 g) = GDone \<and> calls (ssh s21) = calls (ssh s20) \<and>
         cell (ssh s21) = cell (ssh s20) \<and> \<not> locked (ssh s21)"
proof -
  from refresh_reload [OF x p f c t1 g1 t2] v
  have k3: "cell (ssh s3) = Some x" "flag (ssh s3) = 1" "calls (ssh s3) = calls (ssh s0)"
    and l3: "res1 (sth s3 t) = x" "pc (sth s3 t) = L117" and x3: "sh_excl s3"
    by simp_all
  from l3 have o3: "sh_owner (pc (sth s3 t))" by simp
  from sh_gap_owner [OF g2 x3 o3] k3 l3
  have k4: "cell (ssh s4) = Some x" "flag (ssh s4) = 1" "calls (ssh s4) = calls (ssh s0)"
    and l4: "res1 (sth s4 t) = x" "pc (sth s4 t) = L117" and x4: "sh_excl s4"
    by simp_all
  from t3 l4 have gt: "g \<noteq> t"
    and s5: "s5 = \<lparr>ssh = ssh s4,
      sth = (sth s4)(t := (sth s4 t)\<lparr>ret := Some (expand x), pc := Ret 121\<rparr>,
        g := (sth s4 g)\<lparr>pc := G90\<rparr>)\<rparr>"
    by (auto simp: sh_solo split: if_splits)
  from sh_step_excl [OF t3 x4] have x5: "sh_excl s5" .
  from s5 gt have l5: "pc (sth s5 g) = G90" "pc (sth s5 t) = Ret 121"
    "ret (sth s5 t) = Some (expand x)" by simp_all
  from l5 have o5: "sh_owner (pc (sth s5 g))" by simp
  from s5 k4 have k5: "cell (ssh s5) = Some x" "flag (ssh s5) = 1"
    "calls (ssh s5) = calls (ssh s0)" by simp_all
  from sh_gap_owner [OF h1 x5 o5] k5 l5
  have k6: "cell (ssh s6) = Some x" "flag (ssh s6) = 1" "calls (ssh s6) = calls (ssh s0)"
    and l6: "pc (sth s6 g) = G90" and x6: "sh_excl s6" by simp_all
  from u1 l6 have s7: "s7 = \<lparr>ssh = (ssh s6)\<lparr>calls := calls (ssh s6) + 1\<rparr>,
      sth = (sth s6)(g := (sth s6 g)\<lparr>pc := G90p\<rparr>)\<rparr>"
    by (auto simp: sh_solo)
  from sh_step_excl [OF u1 x6] have x7: "sh_excl s7" .
  from s7 have o7: "sh_owner (pc (sth s7 g))" by simp
  from s7 k6 have k7: "cell (ssh s7) = Some x" "flag (ssh s7) = 1"
    "calls (ssh s7) = calls (ssh s0) + 1" by simp_all
  from sh_gap_owner [OF h2 x7 o7] k7 s7
  have k8: "cell (ssh s8) = Some x" "flag (ssh s8) = 1" "calls (ssh s8) = calls (ssh s0) + 1"
    and l8: "pc (sth s8 g) = G90p" and x8: "sh_excl s8" by simp_all
  from u2 l8 have s9: "s9 = \<lparr>ssh = ssh s8,
      sth = (sth s8)(g := (sth s8 g)\<lparr>out := (v', e'), pc := G90n\<rparr>)\<rparr>"
    by (auto simp: sh_solo)
  from sh_step_excl [OF u2 x8] have x9: "sh_excl s9" .
  from s9 have o9: "sh_owner (pc (sth s9 g))" by simp
  from sh_gap_owner [OF h3 x9 o9] k8 s9
  have k10: "cell (ssh s10) = Some x" "flag (ssh s10) = 1"
    "calls (ssh s10) = calls (ssh s0) + 1"
    and l10: "pc (sth s10 g) = G90n" "out (sth s10 g) = (v', e')" and x10: "sh_excl s10"
    by simp_all
  from u3 l10 have s11: "s11 = \<lparr>ssh = ssh s10,
      sth = (sth s10)(g := (sth s10 g)\<lparr>res := produceResult (v', e') (clk (ssh s10)),
        pc := G90s\<rparr>)\<rparr>"
    by (auto simp: sh_solo)
  from sh_step_excl [OF u3 x10] have x11: "sh_excl s11" .
  from s11 have o11: "sh_owner (pc (sth s11 g))" by simp
  from sh_gap_owner [OF h4 x11 o11] k10 s11
  have k12: "cell (ssh s12) = Some x" "flag (ssh s12) = 1"
    "calls (ssh s12) = calls (ssh s0) + 1"
    and l12: "pc (sth s12 g) = G90s" "res (sth s12 g) = produceResult (v', e') (clk (ssh s10))"
    and x12: "sh_excl s12" by simp_all
  from u4 l12 have s13: "s13 = \<lparr>ssh = (ssh s12)\<lparr>cell := Some (res (sth s12 g))\<rparr>,
      sth = (sth s12)(g := (sth s12 g)\<lparr>pc := G92\<rparr>)\<rparr>"
    by (auto simp: sh_solo)
  from sh_step_excl [OF u4 x12] have x13: "sh_excl s13" .
  from s13 have o13: "sh_owner (pc (sth s13 g))" by simp
  from s13 k12 l12 have k13: "cell (ssh s13) = Some \<lparr>val = v', err = e', moment = clk (ssh s10)\<rparr>"
    "flag (ssh s13) = 1" "calls (ssh s13) = calls (ssh s0) + 1"
    by (simp_all add: produceResult_eq)
  from sh_gap_owner [OF h5 x13 o13] k13 s13
  have k14: "cell (ssh s14) = cell (ssh s13)" "flag (ssh s14) = 1"
    "calls (ssh s14) = calls (ssh s0) + 1"
    and l14: "pc (sth s14 g) = G92" and x14: "sh_excl s14" by simp_all
  from u5 l14 have n14: "\<not> locked (ssh s14)"
    and s15: "s15 = \<lparr>ssh = (ssh s14)\<lparr>locked := True\<rparr>,
      sth = (sth s14)(g := (sth s14 g)\<lparr>pc := G95\<rparr>)\<rparr>"
    by (auto simp: sh_solo split: if_splits)
  from sh_step_excl [OF u5 x14] have x15: "sh_excl s15" .
  from s15 have o15: "sh_owner (pc (sth s15 g))" by simp
  from sh_gap_owner [OF h6 x15 o15] k14 s15
  have k16: "cell (ssh s16) = cell (ssh s13)" "flag (ssh s16) = 1"
    "calls (ssh s16) = calls (ssh s0) + 1"
    and l16: "pc (sth s16 g) = G95" by simp_all
  from u6 l16 have s17: "s17 = \<lparr>ssh = (ssh s16)\<lparr>flag := 0\<rparr>,
      sth = (sth s16)(g := (sth s16 g)\<lparr>pc := G96\<rparr>)\<rparr>"
    by (auto simp: sh_solo)
  from s17 have "pc (sth s17 g) \<noteq> L134w" by simp
  from sh_gap_frame [OF h7 this] s17 have l18: "pc (sth s18 g) = G96" by simp
  from u7 l18 have s19: "ssh s19 = ssh s18"
    "sth s19 = wake ((sth s18)(g := (sth s18 g)\<lparr>pc := G97\<rparr>))"
    by (auto simp: sh_solo)
  from l18 have "pc (sth s18 g) \<noteq> L134w" by simp
  from broadcast_wakes [OF s19(2) this]
  have w: "\<forall>u. pc (sth s18 u) = L134w \<longrightarrow> sth s19 u = (sth s18 u)\<lparr>pc := L134r\<rparr>"
    "\<forall>u. pc (sth s19 u) \<noteq> L134w" by simp_all
  from s19 have l19: "pc (sth s19 g) = G97" by (simp add: wake_def)
  then have "pc (sth s19 g) \<noteq> L134w" by simp
  from sh_gap_frame [OF h8 this] l19 have l20: "pc (sth s20 g) = G97" by simp
  from u8 l20 have s21: "s21 = \<lparr>ssh = (ssh s20)\<lparr>locked := False\<rparr>,
      sth = (sth s20)(g := (sth s20 g)\<lparr>pc := GDone\<rparr>)\<rparr>"
    by (auto simp: sh_solo)
  from l3 s5 l5 k5 k7 k12 k13 k16 n14 s15 s17 s19(1) w s21 show ?thesis by simp
qed


text \<open>
  Claim C7. From line 102 a call of \<^verbatim>\<open>softHard.Get\<close> goes on to the compare-and-swap
  of line 109 exactly when its result is expired under the soft periods and valid
  under the hard periods at the clock reading \<open>now1\<close> it takes there. In a state
  where the state word has a single owner at most, such a call stands before the
  compare-and-swap, the state word is 0 and the cell holds \<open>x\<close>. The call and, in
  the second case, the goroutine it starts take their steps one by one; between any
  two of them the other threads and the clock do what they can (\<open>sh_gap\<close>). The
  compare-and-swap succeeds and, whatever the others do, line 110 loads \<open>x\<close> again.

  If \<open>x\<close> is valid under the soft periods at \<open>now1\<close>, the call takes the mutex
  and resets the state word; up to there the cell is unchanged and the production
  function was not called by anyone. Its \<^verbatim>\<open>Broadcast\<close> moves every thread blocked in
  \<^verbatim>\<open>Wait\<close> out of it, and the call returns the pair of \<open>x\<close>.

  Otherwise the \<^verbatim>\<open>go\<close> statement starts the goroutine \<open>g\<close> and the call returns the
  pair of \<open>x\<close> at once, the state word still 1. The goroutine calls the production
  function (the only call until the state word is reset), stores the returned pair
  with its clock reading as one result, which stays in the cell until the goroutine
  has taken the mutex and reset the state word, and its \<^verbatim>\<open>Broadcast\<close> moves every
  thread blocked in \<^verbatim>\<open>Wait\<close> out of it.
\<close>

theorem within_hard_refresh:
  assumes x: "sh_excl s0" and p: "pc (sth s0 t) = L109" and f: "flag (ssh s0) = 0"
    and c: "cell (ssh s0) = Some x"
    and t1: "sh_step r (Step t) s0 = Some s1" and g1: "sh_gap r t as1 s1 s2"
    and t2: "sh_step r (Step t) s2 = Some s3"
  shows
    "(pc (sth sa t) = L102 \<longrightarrow> sh_step r (Step t) sa = Some sb \<longrightarrow>
        now1 (sth sb t) = clk (ssh sa) \<and> ssh sb = ssh sa \<and>
        (pc (sth sb t) = L109) =
          (\<not> isValidAt (clk (ssh sa)) (sh_soft r) (res1 (sth sa t)) \<and>
           isValidAt (clk (ssh sa)) (sh_hard r) (res1 (sth sa t)))) \<and>
     (isValidAt (now1 (sth s0 t)) (sh_soft r) x \<longrightarrow>
      sh_gap r t as2 s3 s4 \<longrightarrow> sh_step r (Step t) s4 = Some s5 \<longrightarrow>
      sh_gap r t as3 s5 s6 \<longrightarrow> sh_step r (Step t) s6 = Some s7 \<longrightarrow>
      sh_gap r t as4 s7 s8 \<longrightarrow> sh_step r (Step t) s8 = Some s9 \<longrightarrow>
      sh_gap r t as5 s9 s10 \<longrightarrow> sh_step r (Step t) s10 = Some s11 \<longrightarrow>
        pc (sth s3 t) = L111 \<and> \<not> locked (ssh s4) \<and> locked (ssh s5) \<and>
         cell (ssh s7) = Some x \<and> calls (ssh s7) = calls (ssh s0) \<and> flag (ssh s7) = 0 \<and>
         ssh s9 = ssh s8 \<and>
         (\<forall>u. pc (sth s8 u) = L134w \<longrightarrow> sth s9 u = (sth s8 u)\<lparr>pc := L134r\<rparr>) \<and>
         (\<forall>u. pc (sth s9 u) \<noteq> L134w) \<and>
         pc (sth s11 t) = Ret 121 \<and> ret (sth s11 t) = Some (expand x) \<and>
         calls (ssh s11) = calls (ssh s10) \<and> cell (ssh s11) = cell (ssh s10) \<and>
         \<not> locked (ssh s11)) \<and>
     (\<not> isValidAt (now1 (sth s0 t)) (sh_soft r) x \<longrightarrow>
      sh_gap r t bs0 s3 q4 \<longrightarrow> sh_step r (Go t g) q4 = Some q5 \<longrightarrow>
      sh_gap r g bs1 q5 q6 \<longrightarrow> sh_step r (Step g) q6 = Some q7 \<longrightarrow>
      sh_gap r g bs2 q7 q8 \<longrightarrow> sh_step r (Return g v e) q8 = Some q9 \<longrightarrow>
      sh_gap r g bs3 q9 q10 \<longrightarrow> sh_step r (Step g) q10 = Some q11 \<longrightarrow>
      sh_gap r g bs4 q11 q12 \<longrightarrow> sh_step r (Step g) q12 = Some q13 \<longrightarrow>
      sh_gap r g bs5 q13 q14 \<longrightarrow> sh_step r (Step g) q14 = Some q15 \<longrightarrow>
      sh_gap r g bs6 q15 q16 \<longrightarrow> sh_step r (Step g) q16 = Some q17 \<longrightarrow>
      sh_gap r g bs7 q17 q18 \<longrightarrow> sh_step r (Step g) q18 = Some q19 \<longrightarrow>
      sh_gap r g bs8 q19 q20 \<longrightarrow> sh_step r (Step g) q20 = Some q21 \<longrightarrow>
        pc (sth s3 t) = L117 \<and>
         ssh q5 = ssh q4 \<and> pc (sth q5 t) = Ret 121 \<and> ret (sth q5 t) = Some (expand x) \<and>
         pc (sth q5 g) = G90 \<and> flag (ssh q5) = 1 \<and> cell (ssh q5) = Some x \<and>
         calls (ssh q5) = calls (ssh s0) \<and>
         calls (ssh q7) = calls (ssh s0) + 1 \<and> cell (ssh q12) = Some x \<and>
         cell (ssh q13) = Some \<lparr>val = v, err = e, moment = clk (ssh q10)\<rparr> \<and>
         cell (ssh q16) = cell (ssh q13) \<and> calls (ssh q16) = calls (ssh s0) + 1 \<and>
         \<not> locked (ssh q14) \<and> locked (ssh q15) \<and> flag (ssh q16) = 1 \<and> flag (ssh q17) = 0 \<and>
         ssh q19 = ssh q18 \<and>
         (\<forall>u. pc (sth q18 u) = L134w \<longrightarrow> sth q19 u = (sth q18 u)\<lparr>pc := L134r\<rparr>) \<and>
         (\<forall>u. pc (sth q19 u) \<noteq> L134w) \<and>
         pc (sth q21 g) = GDone \<and> calls (ssh q21) = calls (ssh q20) \<and>
         cell (ssh q21) = cell (ssh q20) \<and> \<not> locked (ssh q21))"
proof (intro conjI, goal_cases)
  case 1
  show ?case by (auto simp: sh_solo)
next
  case 2
  show ?case
  proof (intro impI, goal_cases)
    case 1
    from refresh_fresh [OF x p f c t1 g1 t2 1] show ?case .
  qed
next
  case 3
  show ?case
  proof (intro impI, goal_cases)
    case 1
    from refresh_stale [OF x p f c t1 g1 t2 1] show ?case .
  qed
qed

theorem within_hard_refresh_witness:
  "(\<exists>sa s0 s1 s2 s3 s5 s7 s9 s11.
      sh_exec \<lparr>sh_ctx = Background, sh_produce = (), sh_soft = New 10 10, sh_hard = New 20 20\<rparr>
         [Call 0, Step 0, Step 0, Step 0, Step 0, Step 0, Step 0,
          Return 0 (Some 7) None, Step 0, Step 0, Step 0, Step 0, Step 0, Tick 14, Call 1, Step 1,
          Call 2, Step 2, Step 2, Step 2, Step 2, Go 2 3,
          Step 3, Return 3 (Some 8) None, Step 3, Step 3, Step 3, Step 3, Step 3, Step 3]
         (sh_init 1 :: (nat, nat) sh_state) = Some sa \<and>
      sh_step \<lparr>sh_ctx = Background, sh_produce = (), sh_soft = New 10 10, sh_hard = New 20 20\<rparr> (Step 1) sa = Some s0 \<and>
      sh_step \<lparr>sh_ctx = Background, sh_produce = (), sh_soft = New 10 10, sh_hard = New 20 20\<rparr> (Step 1) s0 = Some s1 \<and>
      sh_gap \<lparr>sh_ctx = Background, sh_produce = (), sh_soft = New 10 10, sh_hard = New 20 20\<rparr> 1 [Tick 30, Call 4, Step 4, Step 4, Step 4, Step 4, Step 4, Step 4, Step 4, Step 4] s1 s2 \<and>
      sh_step \<lparr>sh_ctx = Background, sh_produce = (), sh_soft = New 10 10, sh_hard = New 20 20\<rparr> (Step 1) s2 = Some s3 \<and> sh_step \<lparr>sh_ctx = Background, sh_produce = (), sh_soft = New 10 10, sh_hard = New 20 20\<rparr> (Step 1) s3 = Some s5 \<and>
      sh_step \<lparr>sh_ctx = Background, sh_produce = (), sh_soft = New 10 10, sh_hard = New 20 20\<rparr> (Step 1) s5 = Some s7 \<and> sh_step \<lparr>sh_ctx = Background, sh_produce = (), sh_soft = New 10 10, sh_hard = New 20 20\<rparr> (Step 1) s7 = Some s9 \<and>
      sh_step \<lparr>sh_ctx = Background, sh_produce = (), sh_soft = New 10 10, sh_hard = New 20 20\<rparr> (Step 1) s9 = Some s11 \<and>
      pc (sth sa 1) = L102 \<and> pc (sth s0 1) = L109 \<and>
      pc (sth s7 4) = L134w \<and> flag (ssh s7) = 0 \<and> pc (sth s9 4) = L134r \<and>
      pc (sth s11 1) = Ret 121 \<and> ret (sth s11 1) = Some (Some 8, None) \<and>
      calls (ssh s11) = 2) \<and>
   (\<exists>sa s0 s1 s3 q5 q7 q8 q9 q11 q13 q15 q17 q19 q21.
      sh_exec \<lparr>sh_ctx = Background, sh_produce = (), sh_soft = New 10 10, sh_hard = New 20 20\<rparr>
         [Call 0, Step 0, Step 0, Step 0, Step 0, Step 0, Step 0,
          Return 0 (Some 7) None, Step 0, Step 0, Step 0, Step 0, Step 0, Tick 14, Call 1, Step 1]
         (sh_init 1 :: (nat, nat) sh_state) = Some sa \<and>
      sh_step \<lparr>sh_ctx = Background, sh_produce = (), sh_soft = New 10 10, sh_hard = New 20 20\<rparr> (Step 1) sa = Some s0 \<and>
      sh_step \<lparr>sh_ctx = Background, sh_produce = (), sh_soft = New 10 10, sh_hard = New 20 20\<rparr> (Step 1) s0 = Some s1 \<and> sh_step \<lparr>sh_ctx = Background, sh_produce = (), sh_soft = New 10 10, sh_hard = New 20 20\<rparr> (Step 1) s1 = Some s3 \<and>
      sh_step \<lparr>sh_ctx = Background, sh_produce = (), sh_soft = New 10 10, sh_hard = New 20 20\<rparr> (Go 1 2) s3 = Some q5 \<and> sh_step \<lparr>sh_ctx = Background, sh_produce = (), sh_soft = New 10 10, sh_hard = New 20 20\<rparr> (Step 2) q5 = Some q7 \<and>
      sh_gap \<lparr>sh_ctx = Background, sh_produce = (), sh_soft = New 10 10, sh_hard = New 20 20\<rparr> 2 [Tick 30, Call 4, Step 4, Step 4, Step 4, Step 4, Step 4, Step 4, Step 4, Step 4] q7 q8 \<and>
      sh_step \<lparr>sh_ctx = Background, sh_produce = (), sh_soft = New 10 10, sh_hard = New 20 20\<rparr> (Return 2 None (Some 4)) q8 = Some q9 \<and>
      sh_step \<lparr>sh_ctx = Background, sh_produce = (), sh_soft = New 10 10, sh_hard = New 20 20\<rparr> (Step 2) q9 = Some q11 \<and> sh_step \<lparr>sh_ctx = Background, sh_produce = (), sh_soft = New 10 10, sh_hard = New 20 20\<rparr> (Step 2) q11 = Some q13 \<and>
      sh_step \<lparr>sh_ctx = Background, sh_produce = (), sh_soft = New 10 10, sh_hard = New 20 20\<rparr> (Step 2) q13 = Some q15 \<and> sh_step \<lparr>sh_ctx = Background, sh_produce = (), sh_soft = New 10 10, sh_hard = New 20 20\<rparr> (Step 2) q15 = Some q17 \<and>
      sh_step \<lparr>sh_ctx = Background, sh_produce = (), sh_soft = New 10 10, sh_hard = New 20 20\<rparr> (Step 2) q17 = Some q19 \<and> sh_step \<lparr>sh_ctx = Background, sh_produce = (), sh_soft = New 10 10, sh_hard = New 20 20\<rparr> (Step 2) q19 = Some q21 \<and>
      pc (sth sa 1) = L102 \<and> pc (sth s0 1) = L109 \<and>
      pc (sth q5 1) = Ret 121 \<and> ret (sth q5 1) = Some (Some 7, None) \<and>
      pc (sth q17 4) = L134w \<and> flag (ssh q17) = 0 \<and> pc (sth q19 4) = L134r \<and>
      cell (ssh q21) = Some \<lparr>val = None, err = Some 4, moment = 45\<rparr> \<and>
      calls (ssh q21) = 2)"
  (is "?A \<and> ?B")
proof -
  let ?r = "\<lparr>sh_ctx = Background, sh_produce = (), sh_soft = New 10 10, sh_hard = New 20 20\<rparr>"
  let ?x = "\<lparr>val = Some (8::nat), err = (None :: nat option), moment = 15\<rparr>"
  let ?y = "\<lparr>val = Some (7::nat), err = (None :: nat option), moment = 1\<rparr>"
  let ?gap = "[Tick 30, Call 4, Step 4, Step 4, Step 4, Step 4, Step 4, Step 4, Step 4, Step 4] :: (nat, nat) action list"
  have e [simp]: "sh_gap ?r k [] s s" for k and s :: "(nat, nat) sh_state"
    by (simp add: sh_gap_def)
  have "\<exists>sa s0 s1 s2 s3 s5 s7 s9 s11.
      sh_exec ?r
         [Call 0, Step 0, Step 0, Step 0, Step 0, Step 0, Step 0,
          Return 0 (Some 7) None, Step 0, Step 0, Step 0, Step 0, Step 0, Tick 14, Call 1, Step 1,
          Call 2, Step 2, Step 2, Step 2, Step 2, Go 2 3,
          Step 3, Return 3 (Some 8) None, Step 3, Step 3, Step 3, Step 3, Step 3, Step 3]
         (sh_init 1 :: (nat, nat) sh_state) = Some sa \<and>
      sh_step ?r (Step 1) sa = Some s0 \<and>
      sh_step ?r (Step 1) s0 = Some s1 \<and>
      sh_gap ?r 1 ?gap s1 s2 \<and>
      sh_step ?r (Step 1) s2 = Some s3 \<and> sh_step ?r (Step 1) s3 = Some s5 \<and>
      sh_step ?r (Step 1) s5 = Some s7 \<and> sh_step ?r (Step 1) s7 = Some s9 \<and>
      sh_step ?r (Step 1) s9 = Some s11 \<and>
      pc (sth sa 1) = L102 \<and>
      \<not> isValidAt (clk (ssh sa)) (sh_soft ?r) (res1 (sth sa 1)) \<and>
      isValidAt (clk (ssh sa)) (sh_hard ?r) (res1 (sth sa 1)) \<and>
      flag (ssh s0) = 0 \<and> cell (ssh s0) = Some ?x \<and>
      isValidAt (now1 (sth s0 1)) (sh_soft ?r) ?x \<and>
      pc (sth s7 4) = L134w \<and> calls (ssh s0) = 2 \<and> calls (ssh s9) = 2"
    by (simp add: sh_run sh_gap_def involves_def)
  then obtain sa s0 s1 s2 s3 s5 s7 s9 s11 where
    r0: "sh_exec ?r
         [Call 0, Step 0, Step 0, Step 0, Step 0, Step 0, Step 0,
          Return 0 (Some 7) None, Step 0, Step 0, Step 0, Step 0, Step 0, Tick 14, Call 1, Step 1,
          Call 2, Step 2, Step 2, Step 2, Step 2, Go 2 3,
          Step 3, Return 3 (Some 8) None, Step 3, Step 3, Step 3, Step 3, Step 3, Step 3]
         (sh_init 1 :: (nat, nat) sh_state) = Some sa"
    and ta: "sh_step ?r (Step 1) sa = Some s0"
    and t1: "sh_step ?r (Step 1) s0 = Some s1" and g1: "sh_gap ?r 1 ?gap s1 s2"
    and t2: "sh_step ?r (Step 1) s2 = Some s3" and t3: "sh_step ?r (Step 1) s3 = Some s5"
    and t4: "sh_step ?r (Step 1) s5 = Some s7" and t5: "sh_step ?r (Step 1) s7 = Some s9"
    and t6: "sh_step ?r (Step 1) s9 = Some s11"
    and z: "pc (sth sa 1) = L102"
      "\<not> isValidAt (clk (ssh sa)) (sh_soft ?r) (res1 (sth sa 1))"
      "isValidAt (clk (ssh sa)) (sh_hard ?r) (res1 (sth sa 1))"
    and h: "flag (ssh s0) = 0" "cell (ssh s0) = Some ?x"
    and v: "isValidAt (now1 (sth s0 1)) (sh_soft ?r) ?x"
    and k: "pc (sth s7 4) = L134w" "calls (ssh s0) = 2" "calls (ssh s9) = 2"
    by blast
  from r0 have "sh_excl sa" using sh_init_excl by (rule sh_exec_excl)
  with ta have x0: "sh_excl s0" by (rule sh_step_excl)
  from ta z have p0: "pc (sth s0 1) = L109" by (auto simp: sh_solo)
  from within_hard_refresh [OF x0 p0 h t1 g1 t2, where sa = sa and sb = s0 and ?s4.0 = s3 and ?s5.0 = s5 and ?s6.0 = s5
      and ?s7.0 = s7 and ?s8.0 = s7 and ?s9.0 = s9 and ?s10.0 = s9 and ?s11.0 = s11
      and ?as2.0 = "[]" and ?as3.0 = "[]" and ?as4.0 = "[]" and ?as5.0 = "[]",
      THEN conjunct2, THEN conjunct1]
    v t3 t4 t5 t6 k
  have a: "flag (ssh s7) = 0" "pc (sth s9 4) = L134r" "pc (sth s11 1) = Ret 121"
    "ret (sth s11 1) = Some (Some 8, None)" "calls (ssh s11) = 2"
    by (simp_all add: expand_def)
  have "\<exists>sa s0 s1 s3 q5 q7 q8 q9 q11 q13 q15 q17 q19 q21.
      sh_exec ?r
         [Call 0, Step 0, Step 0, Step 0, Step 0, Step 0, Step 0,
          Return 0 (Some 7) None, Step 0, Step 0, Step 0, Step 0, Step 0, Tick 14, Call 1, Step 1]
         (sh_init 1 :: (nat, nat) sh_state) = Some sa \<and>
      sh_step ?r (Step 1) sa = Some s0 \<and>
      sh_step ?r (Step 1) s0 = Some s1 \<and> sh_step ?r (Step 1) s1 = Some s3 \<and>
      sh_step ?r (Go 1 2) s3 = Some q5 \<and> sh_step ?r (Step 2) q5 = Some q7 \<and>
      sh_gap ?r 2 ?gap q7 q8 \<and>
      sh_step ?r (Return 2 None (Some 4)) q8 = Some q9 \<and>
      sh_step ?r (Step 2) q9 = Some q11 \<and> sh_step ?r (Step 2) q11 = Some q13 \<and>
      sh_step ?r (Step 2) q13 = Some q15 \<and> sh_step ?r (Step 2) q15 = Some q17 \<and>
      sh_step ?r (Step 2) q17 = Some q19 \<and> sh_step ?r (Step 2) q19 = Some q21 \<and>
      pc (sth sa 1) = L102 \<and>
      \<not> isValidAt (clk (ssh sa)) (sh_soft ?r) (res1 (sth sa 1)) \<and>
      isValidAt (clk (ssh sa)) (sh_hard ?r) (res1 (sth sa 1)) \<and>
      flag (ssh s0) = 0 \<and> cell (ssh s0) = Some ?y \<and>
      \<not> isValidAt (now1 (sth s0 1)) (sh_soft ?r) ?y \<and>
      pc (sth q17 4) = L134w \<and> calls (ssh s0) = 1 \<and> clk (ssh q9) = 45 \<and>
      calls (ssh q19) = 2 \<and> cell (ssh q19) = cell (ssh q13)"
    by (simp add: sh_run sh_gap_def involves_def)
  then obtain pa p0 p1 p3 q5 q7 q8 q9 q11 q13 q15 q17 q19 q21 where
    r0': "sh_exec ?r
         [Call 0, Step 0, Step 0, Step 0, Step 0, Step 0, Step 0,
          Return 0 (Some 7) None, Step 0, Step 0, Step 0, Step 0, Step 0, Tick 14, Call 1, Step 1]
         (sh_init 1 :: (nat, nat) sh_state) = Some pa"
    and ta': "sh_step ?r (Step 1) pa = Some p0"
    and u: "sh_step ?r (Step 1) p0 = Some p1" "sh_step ?r (Step 1) p1 = Some p3"
      "sh_step ?r (Go 1 2) p3 = Some q5" "sh_step ?r (Step 2) q5 = Some q7"
    and g2: "sh_gap ?r 2 ?gap q7 q8"
    and w: "sh_step ?r (Return 2 None (Some 4)) q8 = Some q9"
      "sh_step ?r (Step 2) q9 = Some q11" "sh_step ?r (Step 2) q11 = Some q13"
      "sh_step ?r (Step 2) q13 = Some q15" "sh_step ?r (Step 2) q15 = Some q17"
      "sh_step ?r (Step 2) q17 = Some q19" "sh_step ?r (Step 2) q19 = Some q21"
    and z': "pc (sth pa 1) = L102"
      "\<not> isValidAt (clk (ssh pa)) (sh_soft ?r) (res1 (sth pa 1))"
      "isValidAt (clk (ssh pa)) (sh_hard ?r) (res1 (sth pa 1))"
    and h': "flag (ssh p0) = 0" "cell (ssh p0) = Some ?y"
    and v': "\<not> isValidAt (now1 (sth p0 1)) (sh_soft ?r) ?y"
    and k': "pc (sth q17 4) = L134w" "calls (ssh p0) = 1" "clk (ssh q9) = 45"
      "calls (ssh q19) = 2" "cell (ssh q19) = cell (ssh q13)"
    by blast
  from r0' have "sh_excl pa" using sh_init_excl by (rule sh_exec_excl)
  with ta' have x0': "sh_excl p0" by (rule sh_step_excl)
  from ta' z' have p0': "pc (sth p0 1) = L109" by (auto simp: sh_solo)
  from within_hard_refresh [OF x0' p0' h' u(1) e u(2), where sa = pa and sb = p0 and ?q4.0 = p3 and ?q5.0 = q5
      and ?q6.0 = q5 and ?q7.0 = q7 and ?q8.0 = q8 and ?q9.0 = q9 and ?q10.0 = q9
      and ?q11.0 = q11 and ?q12.0 = q11 and ?q13.0 = q13 and ?q14.0 = q13 and ?q15.0 = q15
      and ?q16.0 = q15 and ?q17.0 = q17 and ?q18.0 = q17 and ?q19.0 = q19 and ?q20.0 = q19
      and ?q21.0 = q21 and g = 2 and v = None and e = "Some 4"
      and ?bs0.0 = "[]" and ?bs1.0 = "[]" and ?bs2.0 = ?gap and ?bs3.0 = "[]"
      and ?bs4.0 = "[]" and ?bs5.0 = "[]" and ?bs6.0 = "[]" and ?bs7.0 = "[]"
      and ?bs8.0 = "[]", THEN conjunct2, THEN conjunct2]
    v' u g2 w k'
  have b: "pc (sth q5 1) = Ret 121" "ret (sth q5 1) = Some (Some 7, None)"
    "flag (ssh q17) = 0" "pc (sth q19 4) = L134r"
    "cell (ssh q21) = Some \<lparr>val = None, err = Some 4, moment = 45\<rparr>" "calls (ssh q21) = 2"
    by (simp_all add: expand_def)
  from r0 ta z(1) p0 t1 g1 t2 t3 t4 t5 t6 k(1) a have "?A" by blast
  moreover from r0' ta' z'(1) p0' u g2 w k'(1) b have "?B" by blast
  ultimately show ?thesis by blast
qed

section \<open>Results read after the unlock\<close>


text \<open>
  Claim C9, a run of the code. Periods 10 ns (default) and 100 ns (error), clock at 1.
  Thread 0 produces \<open>(7, 4)\<close>, a value and an error, stored with moment 1. At 50
  thread 1 finds it valid (under the error period) under the read lock and unlocks.
  At 150 thread 2 finds it expired, takes the write lock, its production function
  returns \<open>(8, nil)\<close> and it assigns \<^verbatim>\<open>r.val\<close>. Thread 1 now executes line 74 and
  returns \<open>(8, 4)\<close>, not the pair \<open>(7, 4)\<close> that was produced and that it found
  valid.
\<close>

theorem od_value_error_pair_not_verbatim:
  "map_option
     (\<lambda>s. (opc (oth s 1), ovalid (oth s 1), otmp (oth s 1), oret (oth s 1),
           opc (oth s 2), ocalls (osh s)))
     (od_exec (New 10 100)
        [Call 0, Step 0, Step 0, Step 0, Step 0, Step 0, Step 0, Step 0, Step 0,
         Return 0 (Some 7) (Some 4), Step 0, Step 0, Step 0, Step 0, Step 0,
         Tick 49,
         Call 1, Step 1, Step 1, Step 1, Step 1,
         Tick 100,
         Call 2, Step 2, Step 2, Step 2, Step 2, Step 2, Step 2, Step 2, Step 2,
         Return 2 (Some 8) None, Step 2,
         Step 1]
        (od_init 1 :: (nat, nat) od_state)) =
   Some (O_Ret 74, True, \<lparr>val = Some 7, err = Some 4, moment = 1\<rparr>, Some (Some 8, Some 4),
         O84e, 2)"
  by (simp add: od_run)

end
